theory Spec2Isabelle
  imports Main "HOL-Library.Word" "HOL-Library.Sublist"
begin

section \<open>Strings\<close>

text \<open>
  Python \<open>str\<close> values are modelled as \<open>string\<close>. The f-strings of the source
  become concatenations; \<open>str(e)\<close> of an exception is its message text.
\<close>

definition apos :: string where
  "apos = [CHR 0x27]"

text \<open>\<open>str.lower()\<close>, on the ASCII letters.\<close>

definition lower_char :: "char \<Rightarrow> char" where
  "lower_char c =
     (case map_of (zip ''ABCDEFGHIJKLMNOPQRSTUVWXYZ'' ''abcdefghijklmnopqrstuvwxyz'') c of
        Some d \<Rightarrow> d
      | None \<Rightarrow> c)"

definition str_lower :: "string \<Rightarrow> string" where
  "str_lower s = map lower_char s"

text \<open>\<open>s.startswith(p)\<close> and the substring test \<open>sub in s\<close>.\<close>

fun startswith :: "string \<Rightarrow> string \<Rightarrow> bool" where
  "startswith s [] = True"
| "startswith [] (p # ps) = False"
| "startswith (c # cs) (p # ps) = (c = p \<and> startswith cs ps)"

fun str_contains :: "string \<Rightarrow> string \<Rightarrow> bool" where
  "str_contains sub [] = (sub = [])"
| "str_contains sub (c # cs) = (startswith (c # cs) sub \<or> str_contains sub cs)"

text \<open>\<open>s.rfind(c)\<close>: the index of the last occurrence, \<open>None\<close> for Python's \<open>-1\<close>.\<close>

fun rfind :: "char \<Rightarrow> string \<Rightarrow> nat option" where
  "rfind c [] = None"
| "rfind c (x # xs) =
     (case rfind c xs of
        Some i \<Rightarrow> Some (Suc i)
      | None \<Rightarrow> if x = c then Some 0 else None)"

text \<open>\<open>s.split(c)\<close>.\<close>

fun split_on :: "char \<Rightarrow> string \<Rightarrow> string list" where
  "split_on c [] = [[]]"
| "split_on c (x # xs) =
     (case split_on c xs of
        [] \<Rightarrow> [[x]]
      | w # ws \<Rightarrow> if x = c then [] # w # ws else (x # w) # ws)"

text \<open>Decimal rendering of a status code inside a message.\<close>

definition digit_char :: "nat \<Rightarrow> char" where
  "digit_char d = (''0123456789'' ! (d mod 10))"

fun show_nat :: "nat \<Rightarrow> string" where
  "show_nat n = (if n < 10 then [digit_char n] else show_nat (n div 10) @ [digit_char n])"

declare show_nat.simps [simp del]

section \<open>Paths\<close>

text \<open>
  \<open>pathlib.Path(p)\<close> on a POSIX path: the parts are the segments between slashes,
  without the empty ones and without \<open>.\<close>; \<open>name\<close> is the last part, or the empty
  string; \<open>suffix\<close> is the part of the name from its last dot, when that dot is
  neither the first nor the last character of the name.
\<close>

definition path_parts :: "string \<Rightarrow> string list" where
  "path_parts p = filter (\<lambda>s. s \<noteq> [] \<and> s \<noteq> ''.'') (split_on CHR ''/'' p)"

definition path_name :: "string \<Rightarrow> string" where
  "path_name p = (case path_parts p of [] \<Rightarrow> [] | _ \<Rightarrow> last (path_parts p))"

definition name_suffix :: "string \<Rightarrow> string" where
  "name_suffix n =
     (case rfind CHR ''.'' n of
        None \<Rightarrow> []
      | Some i \<Rightarrow> if 0 < i \<and> Suc i < length n then drop i n else [])"

definition path_suffix :: "string \<Rightarrow> string" where
  "path_suffix p = name_suffix (path_name p)"

section \<open>Exceptions, the network and the world\<close>

text \<open>
  An exception is its class and its message. \<open>HTTPError\<close> and \<open>ConnectionError\<close>
  are subclasses of \<open>requests.exceptions.RequestException\<close>; the last class stands
  for every other \<open>Exception\<close>.
\<close>

datatype exn_class =
  HTTPError | ConnectionError | RequestException
  | TypeError | ValueError | RuntimeError | BadZipFile | OSError | KeyError
  | OtherException

datatype exn = Exn (cls: exn_class) (msg: string)

definition is_RequestException :: "exn \<Rightarrow> bool" where
  "is_RequestException e =
     (cls e = HTTPError \<or> cls e = ConnectionError \<or> cls e = RequestException)"

type_synonym bytes = "8 word list"

record response =
  status_code :: nat
  reason :: string
  resp_url :: string
  headers :: "(string \<times> string) list"
  content :: "exn + bytes"

text \<open>
  \<open>response.raise_for_status()\<close> of the requests library: an \<open>HTTPError\<close> for a
  status from 400 to 599, nothing otherwise.
\<close>

definition raise_for_status :: "response \<Rightarrow> exn + unit" where
  "raise_for_status r =
     (if 400 \<le> status_code r \<and> status_code r < 500 then
        Inl (Exn HTTPError (show_nat (status_code r) @ '' Client Error: '' @ reason r
               @ '' for url: '' @ resp_url r))
      else if 500 \<le> status_code r \<and> status_code r < 600 then
        Inl (Exn HTTPError (show_nat (status_code r) @ '' Server Error: '' @ reason r
               @ '' for url: '' @ resp_url r))
      else Inr ())"

text \<open>\<open>response.headers.get(key, default)\<close>: header names compare case-insensitively.\<close>

definition headers_get :: "(string \<times> string) list \<Rightarrow> string \<Rightarrow> string \<Rightarrow> string" where
  "headers_get hs key dflt =
     (case map_of (map (\<lambda>(k, v). (str_lower k, v)) hs) (str_lower key) of
        Some v \<Rightarrow> v
      | None \<Rightarrow> dflt)"

text \<open>
  A zip member is its file name inside the archive, its bytes, and what reading it
  does: the read succeeds, or opening the member raises (an encrypted member, a
  compression method \<open>zipfile\<close> does not know, a bad local header), or reading it
  raises once its bytes are copied (a bad CRC). A node of the file system is a
  directory or a regular file; a path is the list of its components below the working
  directory, which is a directory itself and is taken to be the root directory, whose
  parent is itself.
\<close>

datatype member_fault = NoFault | OpenFault exn | ReadFault exn

record zip_entry =
  filename :: string
  data :: bytes
  fault :: member_fault

datatype node = Dir | File bytes

type_synonym path = "string list"

type_synonym filesystem = "path \<Rightarrow> node option"

text \<open>
  What the program does not decide: how \<open>urlparse\<close> splits a URL (its \<open>path\<close>, or the
  \<open>ValueError\<close> it raises), what the server answers to a HEAD and to a GET request
  (or the exception \<open>requests\<close> raises), and how \<open>zipfile.ZipFile\<close> reads a byte
  sequence (its members in order, or the exception it raises).
\<close>

record env =
  urlparse_path :: "string \<Rightarrow> exn + string"
  requests_head :: "string \<Rightarrow> exn + response"
  requests_get :: "string \<Rightarrow> exn + response"
  ZipFile :: "bytes \<Rightarrow> exn + zip_entry list"

text \<open>The observable state: the file system, and the requests sent so far.\<close>

datatype event = HEAD string | GET string

record world =
  fs :: filesystem
  net :: "event list"

section \<open>check_url_is_a_zip_from_header\<close>

text \<open>The body of the \<open>try\<close> block up to the lower-cased \<open>Content-Type\<close>.\<close>

definition head_content_type :: "env \<Rightarrow> string \<Rightarrow> exn + string" where
  "head_content_type E url =
     (case requests_head E url of
        Inl e \<Rightarrow> Inl e
      | Inr r \<Rightarrow>
          (case raise_for_status r of
             Inl e \<Rightarrow> Inl e
           | Inr _ \<Rightarrow> Inr (str_lower (headers_get (headers r) ''Content-Type'' []))))"

definition check_url_is_a_zip_from_header ::
  "env \<Rightarrow> string \<Rightarrow> world \<Rightarrow> (exn + bool \<times> string) \<times> world" where
  "check_url_is_a_zip_from_header E url w =
     (let w' = w\<lparr>net := net w @ [HEAD url]\<rparr> in
      case head_content_type E url of
        Inr content_type \<Rightarrow>
          if str_contains ''application/zip'' content_type
             \<or> str_contains ''application/x-zip-compressed'' content_type
          then (Inr (True, ''Based on Content-Type header: '' @ apos @ content_type @ apos
                       @ '', it is identified as a ZIP file.''), w')
          else (Inr (False, ''Content-Type header '' @ apos @ content_type @ apos
                       @ '' does not indicate a ZIP file.''), w')
      | Inl e \<Rightarrow>
          if is_RequestException e
          then (Inr (False, ''Could not check URL due to network error or invalid URL: ''
                       @ msg e), w')
          else (Inr (False, ''An unexpected error occurred: '' @ msg e), w'))"

section \<open>download_file_from_url\<close>

text \<open>
  The \<open>else\<close> branch of \<open>if omit_verification\<close>: the \<open>match\<close> on the lower-cased
  suffix of the URL's path.
\<close>

definition verify_extension ::
  "env \<Rightarrow> string \<Rightarrow> string \<Rightarrow> world \<Rightarrow> (exn + bool \<times> string) \<times> world" where
  "verify_extension E url p w =
     (let file_extension = str_lower (path_suffix p) in
      if file_extension = ''.zip'' then
        (Inr (True, ''Based on URL extension: '' @ apos @ file_extension @ apos
                @ '', it appears to be a ZIP file.''), w)
      else if file_extension = [] then
        (Inr (False, ''The URL does not have a file extension, cannot determine if it is a ZIP file.''), w)
      else if str_contains ''.'' file_extension then
        (Inr (False, ''Based on URL extension: '' @ apos @ file_extension @ apos
                @ '', it does not appear to be a ZIP file.''), w)
      else check_url_is_a_zip_from_header E url w)"

text \<open>The body of the \<open>try\<close> block of the download, and its two handlers.\<close>

definition get_content :: "env \<Rightarrow> string \<Rightarrow> exn + bytes" where
  "get_content E url =
     (case requests_get E url of
        Inl e \<Rightarrow> Inl e
      | Inr r \<Rightarrow>
          (case raise_for_status r of
             Inl e \<Rightarrow> Inl e
           | Inr _ \<Rightarrow> content r))"

definition download_error :: "string \<Rightarrow> exn \<Rightarrow> exn" where
  "download_error url e =
     (if is_RequestException e then Exn RuntimeError (''Error downloading the file: '' @ msg e)
      else if cls e = TypeError then
        Exn ValueError (''Invalid URL: '' @ url @ ''. Error: '' @ msg e)
      else e)"

definition not_a_zip_error :: "string \<Rightarrow> string \<Rightarrow> exn" where
  "not_a_zip_error url message =
     Exn ValueError (''The url provided '' @ url @ '' doesn'' @ apos
                       @ ''t correspond to a ZIP file. '' @ message)"

definition download_file_from_url ::
  "env \<Rightarrow> string \<Rightarrow> bool \<Rightarrow> world \<Rightarrow> (exn + bytes \<times> string) \<times> world" where
  "download_file_from_url E url omit_verification w =
     (case urlparse_path E url of
        Inl e \<Rightarrow> (Inl e, w)
      | Inr p \<Rightarrow>
          let file_name = path_name p;
              (verdict, w1) =
                (if omit_verification
                 then (Inr (True, ''Verification of the file type is omitted, assuming it is a ZIP file.''), w)
                 else verify_extension E url p w)
          in case verdict of
               Inl e \<Rightarrow> (Inl e, w1)
             | Inr (is_zip, message) \<Rightarrow>
                 if is_zip \<or> omit_verification then
                   (case get_content E url of
                      Inr url_content \<Rightarrow>
                        (Inr (url_content, file_name), w1\<lparr>net := net w1 @ [GET url]\<rparr>)
                    | Inl e \<Rightarrow>
                        (Inl (download_error url e), w1\<lparr>net := net w1 @ [GET url]\<rparr>))
                 else (Inl (not_a_zip_error url message), w1))"

section \<open>The file system\<close>

text \<open>
  The working directory (the empty path) is a directory; every other path is looked up.
\<close>

definition node_at :: "filesystem \<Rightarrow> path \<Rightarrow> node option" where
  "node_at F p = (if p = [] then Some Dir else F p)"

definition join_path :: "path \<Rightarrow> string" where
  "join_path p = concat (map (\<lambda>s. CHR ''/'' # s) p)"

definition os_error :: "string \<Rightarrow> path \<Rightarrow> exn" where
  "os_error what p = Exn OSError (what @ '': '' @ apos @ join_path p @ apos)"

text \<open>\<open>os.mkdir(p)\<close>.\<close>

definition mkdir :: "path \<Rightarrow> filesystem \<Rightarrow> (exn + unit) \<times> filesystem" where
  "mkdir p F =
     (if node_at F p \<noteq> None then (Inl (os_error ''File exists'' p), F)
      else if node_at F (butlast p) = Some Dir then (Inr (), F(p \<mapsto> Dir))
      else if node_at F (butlast p) = None then
        (Inl (os_error ''No such file or directory'' p), F)
      else (Inl (os_error ''Not a directory'' p), F))"

text \<open>
  \<open>os.path.normpath\<close> on the components of a path: a \<open>..\<close> component removes the
  component before it.
\<close>

fun normpath_from :: "path \<Rightarrow> path \<Rightarrow> path" where
  "normpath_from pre [] = pre"
| "normpath_from pre (c # cs) =
     (if c = ''..'' then normpath_from (butlast pre) cs else normpath_from (pre @ [c]) cs)"

definition normpath :: "path \<Rightarrow> path" where
  "normpath p = normpath_from [] p"

text \<open>
  \<open>os.makedirs(p, exist_ok=True)\<close>: walks down the path from the working directory and
  creates every directory that is missing; a \<open>..\<close> component leads back to the
  directory above; it fails at a component that is a regular file, and keeps the
  directories it has created until then.
\<close>

fun makedirs_from :: "path \<Rightarrow> path \<Rightarrow> filesystem \<Rightarrow> (exn + unit) \<times> filesystem" where
  "makedirs_from pre [] F = (Inr (), F)"
| "makedirs_from pre (c # cs) F =
     (if c = ''..'' then makedirs_from (butlast pre) cs F
      else case F (pre @ [c]) of
        Some (File _) \<Rightarrow> (Inl (os_error ''File exists'' (pre @ [c])), F)
      | Some Dir \<Rightarrow> makedirs_from (pre @ [c]) cs F
      | None \<Rightarrow> makedirs_from (pre @ [c]) cs (F(pre @ [c] \<mapsto> Dir)))"

definition makedirs :: "path \<Rightarrow> filesystem \<Rightarrow> (exn + unit) \<times> filesystem" where
  "makedirs p F = makedirs_from [] p F"

text \<open>
  \<open>os.makedirs(name, exist_ok=True)\<close> on the string the program passes: the empty
  string names no directory.
\<close>

definition os_makedirs :: "string \<Rightarrow> filesystem \<Rightarrow> (exn + unit) \<times> filesystem" where
  "os_makedirs name F =
     (if name = [] then (Inl (os_error ''No such file or directory'' []), F)
      else makedirs (path_parts name) F)"

text \<open>\<open>open(p, "wb")\<close> followed by the write of the whole content.\<close>

definition write_file :: "path \<Rightarrow> bytes \<Rightarrow> filesystem \<Rightarrow> (exn + unit) \<times> filesystem" where
  "write_file p d F =
     (if node_at F p = Some Dir then (Inl (os_error ''Is a directory'' p), F)
      else if node_at F (butlast p) = Some Dir then (Inr (), F(p \<mapsto> File d))
      else if node_at F (butlast p) = None then
        (Inl (os_error ''No such file or directory'' p), F)
      else (Inl (os_error ''Not a directory'' p), F))"

section \<open>zipfile\<close>

text \<open>
  \<open>ZipFile.extractall(path)\<close> goes through the names of the members in the archive's
  order and extracts for each name the member \<open>getinfo\<close> finds for it, which is the
  last member of that name. The target of a member is the normalised \<open>path\<close> joined
  with the member's name without its empty, \<open>.\<close> and \<open>..\<close> components; the directories
  above the target are created when they are missing; a member whose name ends in a
  slash is a directory; every other one is opened, the target is opened for writing,
  and the bytes are copied. The first failure stops the extraction and keeps what is
  written.
\<close>

definition is_dir_entry :: "zip_entry \<Rightarrow> bool" where
  "is_dir_entry z = (filename z \<noteq> [] \<and> last (filename z) = CHR ''/'')"

definition arcname :: "zip_entry \<Rightarrow> path" where
  "arcname z =
     filter (\<lambda>s. s \<noteq> [] \<and> s \<noteq> ''.'' \<and> s \<noteq> ''..'') (split_on CHR ''/'' (filename z))"

definition copy_member :: "path \<Rightarrow> zip_entry \<Rightarrow> filesystem \<Rightarrow> (exn + unit) \<times> filesystem" where
  "copy_member targetpath z F =
     (case fault z of
        OpenFault e \<Rightarrow> (Inl e, F)
      | NoFault \<Rightarrow> write_file targetpath (data z) F
      | ReadFault e \<Rightarrow>
          (case write_file targetpath (data z) F of
             (Inl e', F') \<Rightarrow> (Inl e', F')
           | (Inr _, F') \<Rightarrow> (Inl e, F')))"

definition extract_member :: "path \<Rightarrow> zip_entry \<Rightarrow> filesystem \<Rightarrow> (exn + unit) \<times> filesystem" where
  "extract_member dir z F =
     (let targetpath = normpath (dir @ arcname z);
          upperdirs = butlast targetpath;
          (r, F1) = (if upperdirs \<noteq> [] \<and> node_at F upperdirs = None
                     then makedirs upperdirs F else (Inr (), F))
      in case r of
           Inl e \<Rightarrow> (Inl e, F1)
         | Inr _ \<Rightarrow>
             if is_dir_entry z then
               (if node_at F1 targetpath = Some Dir then (Inr (), F1) else mkdir targetpath F1)
             else copy_member targetpath z F1)"

definition getinfo :: "zip_entry list \<Rightarrow> string \<Rightarrow> exn + zip_entry" where
  "getinfo zs name =
     (case filter (\<lambda>z. filename z = name) zs of
        [] \<Rightarrow> Inl (Exn KeyError (''There is no item named '' @ name @ '' in the archive''))
      | y # ys \<Rightarrow> Inr (last (y # ys)))"

fun extract_names ::
  "path \<Rightarrow> zip_entry list \<Rightarrow> string list \<Rightarrow> filesystem \<Rightarrow> (exn + unit) \<times> filesystem" where
  "extract_names dir zs [] F = (Inr (), F)"
| "extract_names dir zs (n # ns) F =
     (case getinfo zs n of
        Inl e \<Rightarrow> (Inl e, F)
      | Inr z \<Rightarrow>
          (case extract_member dir z F of
             (Inl e, F1) \<Rightarrow> (Inl e, F1)
           | (Inr _, F1) \<Rightarrow> extract_names dir zs ns F1))"

definition extractall :: "path \<Rightarrow> zip_entry list \<Rightarrow> filesystem \<Rightarrow> (exn + unit) \<times> filesystem" where
  "extractall dir zs F = extract_names dir zs (map filename zs) F"

section \<open>extract_zip_content\<close>

text \<open>The body of the \<open>try\<close> block, and the two handlers.\<close>

definition unzip :: "env \<Rightarrow> bytes \<Rightarrow> string \<Rightarrow> filesystem \<Rightarrow> (exn + unit) \<times> filesystem" where
  "unzip E zip_content extract_to_dir F =
     (case os_makedirs extract_to_dir F of
        (Inl e, F1) \<Rightarrow> (Inl e, F1)
      | (Inr _, F1) \<Rightarrow>
          (case ZipFile E zip_content of
             Inl e \<Rightarrow> (Inl e, F1)
           | Inr zs \<Rightarrow> extractall (path_parts extract_to_dir) zs F1))"

definition unzip_error :: "string \<Rightarrow> exn \<Rightarrow> exn" where
  "unzip_error zip_file_name e =
     (if cls e = BadZipFile then
        Exn ValueError (''Error: The downloaded file '' @ apos @ zip_file_name @ apos
                          @ '' is not a valid zip file.'')
      else Exn RuntimeError (''An error occurred during unzipping: '' @ msg e))"

definition extract_zip_content ::
  "env \<Rightarrow> bytes \<Rightarrow> string \<Rightarrow> string \<Rightarrow> world \<Rightarrow> (exn + unit) \<times> world" where
  "extract_zip_content E zip_content zip_file_name extract_to_dir w =
     (case unzip E zip_content extract_to_dir (fs w) of
        (Inr _, F) \<Rightarrow> (Inr (), w\<lparr>fs := F\<rparr>)
      | (Inl e, F) \<Rightarrow> (Inl (unzip_error zip_file_name e), w\<lparr>fs := F\<rparr>))"

section \<open>download_and_extract_zip\<close>

definition download_and_extract_zip ::
  "env \<Rightarrow> string \<Rightarrow> string \<Rightarrow> bool \<Rightarrow> world \<Rightarrow> (exn + unit) \<times> world" where
  "download_and_extract_zip E url extract_to_dir omit_verification w =
     (case download_file_from_url E url omit_verification w of
        (Inl e, w1) \<Rightarrow> (Inl e, w1)
      | (Inr (url_content, file_name), w1) \<Rightarrow>
          extract_zip_content E url_content file_name extract_to_dir w1)"

section \<open>Example inputs\<close>

text \<open>
  The inputs at which the theorems below are evaluated: a response with a given status,
  reason, URL, headers and body; an environment that answers every call in one fixed
  way; a world with an empty file system in which no request has been sent.
\<close>

definition http_response ::
  "nat \<Rightarrow> string \<Rightarrow> string \<Rightarrow> (string \<times> string) list \<Rightarrow> bytes \<Rightarrow> response" where
  "http_response st rs u hs b =
     \<lparr>status_code = st, reason = rs, resp_url = u, headers = hs, content = Inr b\<rparr>"

definition fixed_env ::
  "string \<Rightarrow> (exn + response) \<Rightarrow> (exn + response) \<Rightarrow> (exn + zip_entry list) \<Rightarrow> env" where
  "fixed_env p h g z =
     \<lparr>urlparse_path = (\<lambda>u. Inr p), requests_head = (\<lambda>u. h), requests_get = (\<lambda>u. g),
      ZipFile = (\<lambda>b. z)\<rparr>"

definition empty_world :: world where
  "empty_world = \<lparr>fs = Map.empty, net = []\<rparr>"

definition zip_url :: string where
  "zip_url = ''https://example.org/data/set.zip''"

definition csv_url :: string where
  "csv_url = ''https://example.org/data/set.csv''"

definition download_url :: string where
  "download_url = ''https://example.org/download''"

definition two_files :: "zip_entry list" where
  "two_files =
     [\<lparr>filename = ''a.txt'', data = [97], fault = NoFault\<rparr>,
      \<lparr>filename = ''sub/b.txt'', data = [98, 98], fault = NoFault\<rparr>]"

definition same_name_twice :: "zip_entry list" where
  "same_name_twice =
     [\<lparr>filename = ''a.txt'', data = [1], fault = NoFault\<rparr>,
      \<lparr>filename = ''a.txt'', data = [2], fault = NoFault\<rparr>]"

definition not_a_zip :: "exn + zip_entry list" where
  "not_a_zip = Inl (Exn BadZipFile ''File is not a zip file'')"

definition bad_crc_file :: "zip_entry list" where
  "bad_crc_file =
     [\<lparr>filename = ''a.txt'', data = [97], fault = ReadFault (Exn BadZipFile ''Bad CRC-32 for file a.txt'')\<rparr>]"

section \<open>When an extraction cannot fail\<close>

text \<open>
  No regular file stands on the way \<open>os.makedirs\<close> walks along a path.
\<close>

fun is_file :: "node option \<Rightarrow> bool" where
  "is_file (Some (File _)) = True"
| "is_file _ = False"

fun clear_from :: "path \<Rightarrow> path \<Rightarrow> filesystem \<Rightarrow> bool" where
  "clear_from pre [] F = True"
| "clear_from pre (c # cs) F =
     (if c = ''..'' then clear_from (butlast pre) cs F
      else \<not> is_file (F (pre @ [c])) \<and> clear_from (pre @ [c]) cs F)"

text \<open>
  A file member stands in the way of another member when its path is the other one's
  path or a directory above it. The members of an archive are compatible when no
  file member stands in the way of another member, and every file member has a name.
\<close>

definition blocks :: "zip_entry \<Rightarrow> zip_entry \<Rightarrow> bool" where
  "blocks z z' = (\<not> is_dir_entry z \<and> prefix (arcname z) (arcname z'))"

fun members_ok :: "zip_entry list \<Rightarrow> bool" where
  "members_ok [] = True"
| "members_ok (z # zs) =
     ((is_dir_entry z \<or> arcname z \<noteq> [])
      \<and> list_all (\<lambda>z'. \<not> blocks z z' \<and> \<not> blocks z' z) zs
      \<and> members_ok zs)"

text \<open>
  The file system lets a member in: no regular file stands above its target, and the
  target itself is not a directory (for a file member) or not a regular file (for a
  directory member).
\<close>

definition target_free :: "filesystem \<Rightarrow> path \<Rightarrow> zip_entry \<Rightarrow> bool" where
  "target_free F dir z =
     (clear_from [] (butlast (dir @ arcname z)) F
      \<and> (if is_dir_entry z then \<not> is_file (node_at F (dir @ arcname z))
         else node_at F (dir @ arcname z) \<noteq> Some Dir))"

text \<open>Every directory from the working directory down to a path exists.\<close>

definition dirs_down :: "filesystem \<Rightarrow> path \<Rightarrow> bool" where
  "dirs_down F p = (\<forall>k \<le> length p. node_at F (take k p) = Some Dir)"

text \<open>
  The extraction of a list of members one after the other, each one as it stands in the
  list: what \<open>extractall\<close> does when no two members have the same name.
\<close>

fun extract_members :: "path \<Rightarrow> zip_entry list \<Rightarrow> filesystem \<Rightarrow> (exn + unit) \<times> filesystem" where
  "extract_members dir [] F = (Inr (), F)"
| "extract_members dir (z # zs) F =
     (case extract_member dir z F of
        (Inl e, F1) \<Rightarrow> (Inl e, F1)
      | (Inr _, F1) \<Rightarrow> extract_members dir zs F1)"

section \<open>Strings and paths: basic facts\<close>

lemma lower_char_dot: "lower_char CHR ''.'' = CHR ''.''"
  by (simp add: lower_char_def)

lemma rfind_Some: "rfind c s = Some i \<Longrightarrow> i < length s \<and> s ! i = c"
  by (induction s arbitrary: i) (auto split: option.splits if_splits)

text \<open>A suffix is empty or starts with the dot.\<close>

lemma name_suffix_cases: "name_suffix n = [] \<or> (\<exists>t. name_suffix n = CHR ''.'' # t)"
proof (cases "rfind CHR ''.'' n")
  case None
  then show ?thesis by (simp add: name_suffix_def)
next
  case (Some i)
  then have i: "i < length n" "n ! i = CHR ''.''" using rfind_Some by blast+
  then have "drop i n = CHR ''.'' # drop (Suc i) n"
    by (metis Cons_nth_drop_Suc)
  with Some show ?thesis by (simp add: name_suffix_def)
qed

lemma str_contains_single: "str_contains [c] s = (c \<in> set s)"
  by (induction s) auto

lemma dot_in_lower_suffix:
  "str_lower (path_suffix p) \<noteq> [] \<Longrightarrow> str_contains ''.'' (str_lower (path_suffix p))"
  using name_suffix_cases [of "path_name p"]
  by (auto simp: str_contains_single path_suffix_def str_lower_def lower_char_dot)

lemma suffix_of_set_zip: "str_lower (path_suffix ''/data/set.zip'') = ''.zip''"
  by code_simp

lemma suffix_of_set_csv: "str_lower (path_suffix ''/data/set.csv'') = ''.csv''"
  by code_simp

lemma suffix_of_download: "path_suffix ''/download'' = []"
  by code_simp

lemma name_of_set_zip: "path_name ''/data/set.zip'' = ''set.zip''"
  by code_simp

section \<open>The verdict\<close>

text \<open>
  The branch of \<open>verify_extension\<close> that calls \<open>check_url_is_a_zip_from_header\<close> is
  never taken: a non-empty suffix contains its dot. So the verification sends no
  request and always ends with a verdict.
\<close>

lemma verify_extension_world: "snd (verify_extension E url p w) = w"
  using dot_in_lower_suffix [of p]
  by (auto simp: verify_extension_def Let_def)

lemma verify_extension_Inr: "\<exists>b m. verify_extension E url p w = (Inr (b, m), w)"
  using dot_in_lower_suffix [of p]
  by (auto simp: verify_extension_def Let_def)

lemma check_url_Inr:
  "\<exists>b m. check_url_is_a_zip_from_header E url w = (Inr (b, m), w\<lparr>net := net w @ [HEAD url]\<rparr>)"
  by (auto simp: check_url_is_a_zip_from_header_def Let_def split: sum.splits)

lemma raise_for_status_error:
  "400 \<le> status_code r \<Longrightarrow> status_code r < 600 \<Longrightarrow> \<exists>m. raise_for_status r = Inl (Exn HTTPError m)"
  by (auto simp: raise_for_status_def)

text \<open>
  The verification as a whole: it ends with a verdict in the world it started in, so it
  sends no request, and the verdict is positive exactly when the lower-cased suffix of
  the path is \<open>.zip\<close>.
\<close>

theorem verification_decides_by_suffix_alone:
  "\<exists>b m. verify_extension E url p w = (Inr (b, m), w)
          \<and> b = (str_lower (path_suffix p) = ''.zip'')"
  using dot_in_lower_suffix [of p]
  by (auto simp: verify_extension_def Let_def)

text \<open>
  C1, at the URL \<open>https://example.org/data/set.csv\<close> whose HEAD response has the
  \<open>Content-Type\<close> \<open>application/zip\<close>: the verification answers from the extension
  \<open>.csv\<close> alone, with a negative verdict and without a HEAD request, and the
  acquisition is refused; the probe, had it been called, would have answered that the
  resource is a ZIP file.
\<close>

theorem csv_extension_rejected_without_probe:
  "verify_extension
     (fixed_env ''/data/set.csv''
        (Inr (http_response 200 ''OK'' csv_url [(''Content-Type'', ''application/zip'')] []))
        (Inr (http_response 200 ''OK'' csv_url [] [80, 75])) (Inr two_files))
     csv_url ''/data/set.csv'' empty_world
   = (Inr (False, ''Based on URL extension: '' @ apos @ ''.csv'' @ apos
                @ '', it does not appear to be a ZIP file.''), empty_world)
   \<and> download_and_extract_zip
     (fixed_env ''/data/set.csv''
        (Inr (http_response 200 ''OK'' csv_url [(''Content-Type'', ''application/zip'')] []))
        (Inr (http_response 200 ''OK'' csv_url [] [80, 75])) (Inr two_files))
     csv_url ''data/01_raw'' False empty_world
   = (Inl (Exn ValueError (''The url provided '' @ csv_url @ '' doesn'' @ apos
             @ ''t correspond to a ZIP file. '' @ ''Based on URL extension: '' @ apos
             @ ''.csv'' @ apos @ '', it does not appear to be a ZIP file.'')), empty_world)
   \<and> fst (check_url_is_a_zip_from_header
     (fixed_env ''/data/set.csv''
        (Inr (http_response 200 ''OK'' csv_url [(''Content-Type'', ''application/zip'')] []))
        (Inr (http_response 200 ''OK'' csv_url [] [80, 75])) (Inr two_files))
     csv_url empty_world)
   = Inr (True, ''Based on Content-Type header: '' @ apos @ ''application/zip'' @ apos
                  @ '', it is identified as a ZIP file.'')"
proof (intro conjI)
  show "verify_extension
     (fixed_env ''/data/set.csv''
        (Inr (http_response 200 ''OK'' csv_url [(''Content-Type'', ''application/zip'')] []))
        (Inr (http_response 200 ''OK'' csv_url [] [80, 75])) (Inr two_files))
     csv_url ''/data/set.csv'' empty_world
   = (Inr (False, ''Based on URL extension: '' @ apos @ ''.csv'' @ apos
                @ '', it does not appear to be a ZIP file.''), empty_world)"
    by (simp add: verify_extension_def suffix_of_set_csv)
  then show "download_and_extract_zip
     (fixed_env ''/data/set.csv''
        (Inr (http_response 200 ''OK'' csv_url [(''Content-Type'', ''application/zip'')] []))
        (Inr (http_response 200 ''OK'' csv_url [] [80, 75])) (Inr two_files))
     csv_url ''data/01_raw'' False empty_world
   = (Inl (Exn ValueError (''The url provided '' @ csv_url @ '' doesn'' @ apos
             @ ''t correspond to a ZIP file. '' @ ''Based on URL extension: '' @ apos
             @ ''.csv'' @ apos @ '', it does not appear to be a ZIP file.'')), empty_world)"
    by (simp add: download_and_extract_zip_def download_file_from_url_def fixed_env_def
        not_a_zip_error_def)
  show "fst (check_url_is_a_zip_from_header
     (fixed_env ''/data/set.csv''
        (Inr (http_response 200 ''OK'' csv_url [(''Content-Type'', ''application/zip'')] []))
        (Inr (http_response 200 ''OK'' csv_url [] [80, 75])) (Inr two_files))
     csv_url empty_world)
   = Inr (True, ''Based on Content-Type header: '' @ apos @ ''application/zip'' @ apos
                  @ '', it is identified as a ZIP file.'')"
    by code_simp
qed

text \<open>
  C2: when the verification of a URL ends with a negative verdict, the acquisition
  raises a \<open>ValueError\<close> whose message holds the URL and the verdict's reason; the file
  system is the one before the call and no request has been added, so nothing is
  fetched, no directory is created and nothing is extracted.
\<close>

theorem negative_verdict_raises_before_fetch:
  assumes "urlparse_path E url = Inr p"
    and "verify_extension E url p w = (Inr (False, message), w1)"
  shows "download_and_extract_zip E url extract_to_dir False w =
           (Inl (Exn ValueError (''The url provided '' @ url @ '' doesn'' @ apos
                   @ ''t correspond to a ZIP file. '' @ message)), w1)
         \<and> fs w1 = fs w \<and> net w1 = net w"
  using assms verify_extension_world [of E url p w]
  by (simp add: download_and_extract_zip_def download_file_from_url_def not_a_zip_error_def)

theorem negative_verdict_raises_before_fetch_witness:
  "download_and_extract_zip
     (fixed_env ''/download'' (Inl (Exn ConnectionError ''unreachable''))
        (Inr (http_response 200 ''OK'' download_url [] [80, 75])) (Inr two_files))
     download_url ''data/01_raw'' False empty_world
   = (Inl (Exn ValueError (''The url provided '' @ download_url @ '' doesn'' @ apos
         @ ''t correspond to a ZIP file. ''
         @ ''The URL does not have a file extension, cannot determine if it is a ZIP file.'')),
      empty_world)"
proof -
  let ?E = "fixed_env ''/download'' (Inl (Exn ConnectionError ''unreachable''))
        (Inr (http_response 200 ''OK'' download_url [] [80, 75])) (Inr two_files)"
  have h1: "urlparse_path ?E download_url = Inr ''/download''"
    by (simp add: fixed_env_def)
  have h2: "verify_extension ?E download_url ''/download'' empty_world =
      (Inr (False, ''The URL does not have a file extension, cannot determine if it is a ZIP file.''),
       empty_world)"
    by (simp add: verify_extension_def suffix_of_download str_lower_def)
  show ?thesis
    using negative_verdict_raises_before_fetch [OF h1 h2, of "''data/01_raw''"] by simp
qed

text \<open>
  C6: with \<open>omit_verification\<close> the download does not look at the suffix of the URL's
  path and sends no HEAD request: once the URL is parsed, its result is the result of
  the GET request alone, and the GET request is the only one added.
\<close>

theorem omit_verification_skips_classification:
  "download_file_from_url E url True w =
     (case urlparse_path E url of
        Inl e \<Rightarrow> (Inl e, w)
      | Inr p \<Rightarrow>
          (case get_content E url of
             Inr url_content \<Rightarrow> Inr (url_content, path_name p)
           | Inl e \<Rightarrow> Inl (download_error url e),
           w\<lparr>net := net w @ [GET url]\<rparr>))"
  by (simp add: download_file_from_url_def split: sum.splits)

theorem omit_verification_skips_classification_witness:
  "fst (download_file_from_url
     (fixed_env ''/download'' (Inl (Exn ConnectionError ''unreachable''))
        (Inr (http_response 200 ''OK'' download_url [] [80, 75])) (Inr two_files))
     download_url True empty_world) = Inr ([80, 75], ''download'')
   \<and> net (snd (download_file_from_url
     (fixed_env ''/download'' (Inl (Exn ConnectionError ''unreachable''))
        (Inr (http_response 200 ''OK'' download_url [] [80, 75])) (Inr two_files))
     download_url True empty_world)) = [GET download_url]"
proof -
  have n: "path_name ''/download'' = ''download''" by code_simp
  show ?thesis
    using n
    by (simp add: omit_verification_skips_classification fixed_env_def get_content_def
        http_response_def raise_for_status_def empty_world_def)
qed

text \<open>
  C7: when the lower-cased suffix of the URL's path is \<open>.zip\<close>, the verification ends
  with a positive verdict in the world it started in, and the download that follows
  sends the GET request only.
\<close>

theorem zip_extension_accepted_without_probe:
  assumes "urlparse_path E url = Inr p" and "str_lower (path_suffix p) = ''.zip''"
  shows "verify_extension E url p w =
           (Inr (True, ''Based on URL extension: '' @ apos @ ''.zip'' @ apos
                   @ '', it appears to be a ZIP file.''), w)
         \<and> net (snd (download_file_from_url E url False w)) = net w @ [GET url]"
  using assms
  by (simp add: verify_extension_def download_file_from_url_def split: sum.splits)

theorem zip_extension_accepted_without_probe_witness:
  "path_name ''/data/set.zip'' = ''set.zip''
   \<and> verify_extension
       (fixed_env ''/data/set.zip'' (Inl (Exn ConnectionError ''unreachable''))
          (Inr (http_response 200 ''OK'' zip_url [] [80, 75])) (Inr two_files))
       zip_url ''/data/set.zip'' empty_world
     = (Inr (True, ''Based on URL extension: '' @ apos @ ''.zip'' @ apos
                @ '', it appears to be a ZIP file.''), empty_world)
   \<and> net (snd (download_file_from_url
       (fixed_env ''/data/set.zip'' (Inl (Exn ConnectionError ''unreachable''))
          (Inr (http_response 200 ''OK'' zip_url [] [80, 75])) (Inr two_files))
       zip_url False empty_world)) = [GET zip_url]"
proof -
  let ?E = "fixed_env ''/data/set.zip'' (Inl (Exn ConnectionError ''unreachable''))
          (Inr (http_response 200 ''OK'' zip_url [] [80, 75])) (Inr two_files)"
  have h1: "urlparse_path ?E zip_url = Inr ''/data/set.zip''"
    by (simp add: fixed_env_def)
  show ?thesis
    using zip_extension_accepted_without_probe [OF h1 suffix_of_set_zip, of empty_world]
      name_of_set_zip
    by (simp add: empty_world_def)
qed

text \<open>
  C8: when the URL's path has no suffix, the verification ends with a negative verdict
  in the world it started in, and the download that follows sends no request.
\<close>

theorem missing_extension_rejected_without_probe:
  assumes "urlparse_path E url = Inr p" and "path_suffix p = []"
  shows "verify_extension E url p w =
           (Inr (False, ''The URL does not have a file extension, cannot determine if it is a ZIP file.''), w)
         \<and> net (snd (download_file_from_url E url False w)) = net w"
  using assms
  by (simp add: verify_extension_def download_file_from_url_def str_lower_def)

theorem missing_extension_rejected_without_probe_witness:
  "verify_extension
       (fixed_env ''/download'' (Inr (http_response 200 ''OK'' download_url
            [(''Content-Type'', ''application/zip'')] []))
          (Inr (http_response 200 ''OK'' download_url [] [80, 75])) (Inr two_files))
       download_url ''/download'' empty_world
     = (Inr (False, ''The URL does not have a file extension, cannot determine if it is a ZIP file.''),
        empty_world)
   \<and> net (snd (download_file_from_url
       (fixed_env ''/download'' (Inr (http_response 200 ''OK'' download_url
            [(''Content-Type'', ''application/zip'')] []))
          (Inr (http_response 200 ''OK'' download_url [] [80, 75])) (Inr two_files))
       download_url False empty_world)) = []"
proof -
  let ?E = "fixed_env ''/download'' (Inr (http_response 200 ''OK'' download_url
            [(''Content-Type'', ''application/zip'')] []))
          (Inr (http_response 200 ''OK'' download_url [] [80, 75])) (Inr two_files)"
  have h1: "urlparse_path ?E download_url = Inr ''/download''"
    by (simp add: fixed_env_def)
  show ?thesis
    using missing_extension_rejected_without_probe [OF h1 suffix_of_download, of empty_world]
    by (simp add: empty_world_def)
qed

section \<open>The file system: what \<open>os.makedirs\<close> changes\<close>

lemma is_file_iff: "is_file x = (\<exists>c. x = Some (File c))"
  by (cases x rule: is_file.cases) auto

lemma not_file_cases: "\<not> is_file x \<Longrightarrow> x = None \<or> x = Some Dir"
  by (cases x rule: is_file.cases) auto

lemma node_at_Nil [simp]: "node_at F [] = Some Dir"
  by (simp add: node_at_def)

lemma node_at_nonempty: "p \<noteq> [] \<Longrightarrow> node_at F p = F p"
  by (simp add: node_at_def)

text \<open>Paths without \<open>..\<close> are normalised as they stand.\<close>

lemma normpath_from_plain: "''..'' \<notin> set cs \<Longrightarrow> normpath_from pre cs = pre @ cs"
  by (induction cs arbitrary: pre) auto

lemma normpath_plain: "''..'' \<notin> set p \<Longrightarrow> normpath p = p"
  by (simp add: normpath_def normpath_from_plain)

lemma arcname_plain: "''..'' \<notin> set (arcname z)"
  by (simp add: arcname_def)

lemma butlast_plain: "''..'' \<notin> set p \<Longrightarrow> ''..'' \<notin> set (butlast p)"
  by (auto dest: in_set_butlastD)

lemma makedirs_from_frame:
  "''..'' \<notin> set cs \<Longrightarrow> makedirs_from pre cs F = (r, F') \<Longrightarrow>
     F' q = F q \<or> (F q = None \<and> F' q = Some Dir \<and> (\<exists>k. 0 < k \<and> k \<le> length cs \<and> q = pre @ take k cs))"
proof (induction cs arbitrary: pre F)
  case Nil
  then show ?case by simp
next
  case (Cons c cs)
  from Cons.prems(1) have c: "c \<noteq> ''..''" and cs: "''..'' \<notin> set cs" by auto
  show ?case
  proof (cases "F (pre @ [c])")
    case None
    with Cons.prems c have "makedirs_from (pre @ [c]) cs (F(pre @ [c] \<mapsto> Dir)) = (r, F')" by simp
    from Cons.IH [OF cs this]
    consider "F' q = (F(pre @ [c] \<mapsto> Dir)) q"
      | k where "(F(pre @ [c] \<mapsto> Dir)) q = None" "F' q = Some Dir" "0 < k" "k \<le> length cs" "q = (pre @ [c]) @ take k cs"
      by blast
    then show ?thesis
    proof cases
      case 1
      show ?thesis
      proof (cases "q = pre @ [c]")
        case True
        with 1 None have "F q = None \<and> F' q = Some Dir \<and> 0 < (1::nat) \<and> 1 \<le> length (c # cs) \<and> q = pre @ take 1 (c # cs)"
          by simp
        then show ?thesis by blast
      next
        case False
        with 1 show ?thesis by simp
      qed
    next
      case 2
      then have "F q = None" by (simp split: if_splits)
      moreover have "0 < Suc k \<and> Suc k \<le> length (c # cs) \<and> q = pre @ take (Suc k) (c # cs)"
        using 2 by simp
      ultimately show ?thesis using 2(2) by blast
    qed
  next
    case (Some n)
    show ?thesis
    proof (cases n)
      case Dir
      with Some Cons.prems c have "makedirs_from (pre @ [c]) cs F = (r, F')" by simp
      from Cons.IH [OF cs this]
      consider "F' q = F q"
        | k where "F q = None" "F' q = Some Dir" "0 < k" "k \<le> length cs" "q = (pre @ [c]) @ take k cs"
        by blast
      then show ?thesis
      proof cases
        case 1 then show ?thesis by simp
      next
        case 2
        then have "0 < Suc k \<and> Suc k \<le> length (c # cs) \<and> q = pre @ take (Suc k) (c # cs)" by simp
        with 2 show ?thesis by blast
      qed
    next
      case (File x)
      with Some Cons.prems c show ?thesis by simp
    qed
  qed
qed

lemma clear_from_iff:
  "''..'' \<notin> set cs \<Longrightarrow>
   clear_from pre cs F = (\<forall>k. 0 < k \<and> k \<le> length cs \<longrightarrow> \<not> is_file (F (pre @ take k cs)))"
proof (induction cs arbitrary: pre)
  case Nil
  then show ?case by simp
next
  case (Cons c cs)
  from Cons.prems have c: "c \<noteq> ''..''" and cs: "''..'' \<notin> set cs" by auto
  show ?case
  proof
    assume a: "clear_from pre (c # cs) F"
    show "\<forall>k. 0 < k \<and> k \<le> length (c # cs) \<longrightarrow> \<not> is_file (F (pre @ take k (c # cs)))"
    proof (intro allI impI)
      fix k assume k: "0 < k \<and> k \<le> length (c # cs)"
      then obtain j where j: "k = Suc j" by (cases k) auto
      show "\<not> is_file (F (pre @ take k (c # cs)))"
      proof (cases j)
        case 0
        with a j c show ?thesis by simp
      next
        case (Suc i)
        from a c have "clear_from (pre @ [c]) cs F" by simp
        then have "\<not> is_file (F ((pre @ [c]) @ take j cs))"
          using Cons.IH [OF cs, of "pre @ [c]"] k j Suc by auto
        with j show ?thesis by simp
      qed
    qed
  next
    assume a: "\<forall>k. 0 < k \<and> k \<le> length (c # cs) \<longrightarrow> \<not> is_file (F (pre @ take k (c # cs)))"
    from a [rule_format, of 1] have h: "\<not> is_file (F (pre @ [c]))" by simp
    have "\<forall>k. 0 < k \<and> k \<le> length cs \<longrightarrow> \<not> is_file (F ((pre @ [c]) @ take k cs))"
    proof (intro allI impI)
      fix k assume "0 < k \<and> k \<le> length cs"
      with a [rule_format, of "Suc k"] show "\<not> is_file (F ((pre @ [c]) @ take k cs))" by simp
    qed
    then have "clear_from (pre @ [c]) cs F" using Cons.IH [OF cs, of "pre @ [c]"] by blast
    with h c show "clear_from pre (c # cs) F" by simp
  qed
qed

lemma clear_from_mono:
  "clear_from pre cs F \<Longrightarrow> (\<And>q. is_file (F' q) \<Longrightarrow> is_file (F q)) \<Longrightarrow> clear_from pre cs F'"
proof (induction cs arbitrary: pre)
  case Nil
  then show ?case by simp
next
  case (Cons c cs)
  show ?case
  proof (cases "c = ''..''")
    case True
    with Cons.prems(1) have "clear_from (butlast pre) cs F" by simp
    from Cons.IH [OF this Cons.prems(2)] True show ?thesis by simp
  next
    case False
    with Cons.prems(1) have "\<not> is_file (F (pre @ [c]))" and "clear_from (pre @ [c]) cs F"
      by simp_all
    with Cons.IH [OF _ Cons.prems(2)] Cons.prems(2) False show ?thesis by auto
  qed
qed

lemma makedirs_from_succeeds:
  "clear_from pre cs F \<Longrightarrow> \<exists>F'. makedirs_from pre cs F = (Inr (), F')"
proof (induction cs arbitrary: pre F)
  case Nil
  then show ?case by simp
next
  case (Cons c cs)
  show ?case
  proof (cases "c = ''..''")
    case True
    with Cons.prems have "clear_from (butlast pre) cs F" by simp
    from Cons.IH [OF this] True show ?thesis by simp
  next
    case False
    with Cons.prems have nf: "\<not> is_file (F (pre @ [c]))" and cl: "clear_from (pre @ [c]) cs F"
      by simp_all
    show ?thesis
    proof (cases "F (pre @ [c])")
      case None
      have "clear_from (pre @ [c]) cs (F(pre @ [c] \<mapsto> Dir))"
        by (rule clear_from_mono [OF cl]) (simp split: if_splits)
      from Cons.IH [OF this] obtain F' where
        "makedirs_from (pre @ [c]) cs (F(pre @ [c] \<mapsto> Dir)) = (Inr (), F')" by blast
      with None False show ?thesis by simp
    next
      case (Some n)
      with nf have "n = Dir" by (cases n) auto
      with Some Cons.IH [OF cl] False show ?thesis by simp
    qed
  qed
qed

text \<open>
  Where \<open>os.makedirs\<close> arrives: at the normalised path, with directories all the way
  down to it.
\<close>

lemma dirs_down_butlast: "dirs_down F p \<Longrightarrow> dirs_down F (butlast p)"
  unfolding dirs_down_def
proof (intro allI impI)
  fix k assume a: "\<forall>k \<le> length p. node_at F (take k p) = Some Dir" and k: "k \<le> length (butlast p)"
  from k have "k \<le> length p - 1" by simp
  then have "min k (length p - 1) = k" by simp
  then have "take k (butlast p) = take k p" by (simp add: butlast_conv_take)
  moreover have "k \<le> length p" using k by simp
  ultimately show "node_at F (take k (butlast p)) = Some Dir" using a by simp
qed

lemma dirs_down_snoc:
  assumes "dirs_down F p" and "F' (p @ [c]) = Some Dir" and "\<And>q. q \<noteq> p @ [c] \<Longrightarrow> F' q = F q"
  shows "dirs_down F' (p @ [c])"
  unfolding dirs_down_def
proof (intro allI impI)
  fix k assume k: "k \<le> length (p @ [c])"
  show "node_at F' (take k (p @ [c])) = Some Dir"
  proof (cases "k \<le> length p")
    case True
    then have t: "take k (p @ [c]) = take k p" by simp
    have "take k p \<noteq> p @ [c]"
    proof
      assume "take k p = p @ [c]"
      then have "length (take k p) = length (p @ [c])" by simp
      then show False using True by simp
    qed
    then have "F' (take k p) = F (take k p)" by (rule assms(3))
    then have "node_at F' (take k p) = node_at F (take k p)" by (simp add: node_at_def)
    with assms(1) True t show ?thesis by (simp add: dirs_down_def)
  next
    case False
    with k have "take k (p @ [c]) = p @ [c]" by simp
    with assms(2) show ?thesis by (simp add: node_at_def)
  qed
qed

lemma makedirs_from_final:
  "makedirs_from pre cs F = (Inr (), F') \<Longrightarrow> dirs_down F pre
     \<Longrightarrow> dirs_down F' (normpath_from pre cs)"
proof (induction cs arbitrary: pre F)
  case Nil
  then show ?case by simp
next
  case (Cons c cs)
  show ?case
  proof (cases "c = ''..''")
    case True
    with Cons.prems(1) have "makedirs_from (butlast pre) cs F = (Inr (), F')" by simp
    from Cons.IH [OF this dirs_down_butlast [OF Cons.prems(2)]] True show ?thesis by simp
  next
    case False
    show ?thesis
    proof (cases "F (pre @ [c])")
      case None
      with Cons.prems(1) False
      have run: "makedirs_from (pre @ [c]) cs (F(pre @ [c] \<mapsto> Dir)) = (Inr (), F')" by simp
      have "dirs_down (F(pre @ [c] \<mapsto> Dir)) (pre @ [c])"
        by (rule dirs_down_snoc [OF Cons.prems(2)]) simp_all
      from Cons.IH [OF run this] False show ?thesis by simp
    next
      case (Some n)
      with Cons.prems(1) False have n: "n = Dir" by (cases n) auto
      with Some Cons.prems(1) False
      have run: "makedirs_from (pre @ [c]) cs F = (Inr (), F')" by simp
      have "dirs_down F (pre @ [c])"
        by (rule dirs_down_snoc [OF Cons.prems(2)]) (simp_all add: Some n)
      from Cons.IH [OF run this] False show ?thesis by simp
    qed
  qed
qed

lemma dirs_down_Nil: "dirs_down F []"
  by (simp add: dirs_down_def)

lemma os_makedirs_ok:
  assumes "name \<noteq> []" and cl: "clear_from [] (path_parts name) F"
  shows "\<exists>F1. os_makedirs name F = (Inr (), F1) \<and> dirs_down F1 (normpath (path_parts name))"
proof -
  obtain F1 where F1: "makedirs_from [] (path_parts name) F = (Inr (), F1)"
    using makedirs_from_succeeds [OF cl] by blast
  from makedirs_from_final [OF F1 dirs_down_Nil]
  have "dirs_down F1 (normpath (path_parts name))" by (simp add: normpath_def)
  with F1 assms(1) show ?thesis by (simp add: os_makedirs_def makedirs_def)
qed

lemma os_makedirs_frame:
  assumes "''..'' \<notin> set (path_parts name)" and "os_makedirs name F = (Inr (), F1)"
  shows "F1 q = F q \<or> (F q = None \<and> F1 q = Some Dir \<and> prefix q (path_parts name))"
proof -
  from assms(2) have "makedirs_from [] (path_parts name) F = (Inr (), F1)"
    by (simp add: os_makedirs_def makedirs_def split: if_splits)
  from makedirs_from_frame [OF assms(1) this, of q] show ?thesis
    by (auto simp: take_is_prefix)
qed

section \<open>The extraction of the members\<close>

text \<open>The directories above a target, once \<open>extract_member\<close> has made sure of them.\<close>

lemma upperdirs_ok:
  assumes cl: "clear_from [] U F" and plain: "''..'' \<notin> set U"
  defines "res \<equiv> (if U \<noteq> [] \<and> node_at F U = None then makedirs U F else (Inr (), F))"
  shows "\<exists>F1. res = (Inr (), F1) \<and> node_at F1 U = Some Dir
           \<and> (\<forall>q. F1 q = F q \<or> (F q = None \<and> F1 q = Some Dir \<and> prefix q U \<and> q \<noteq> []))"
proof (cases "U \<noteq> [] \<and> node_at F U = None")
  case True
  then have res: "res = makedirs_from [] U F" by (simp add: res_def makedirs_def)
  obtain F1 where F1: "makedirs_from [] U F = (Inr (), F1)"
    using makedirs_from_succeeds [OF cl] by blast
  have "dirs_down F1 U"
    using makedirs_from_final [OF F1 dirs_down_Nil] normpath_from_plain [OF plain, of "[]"]
    by simp
  then have d: "node_at F1 U = Some Dir"
    unfolding dirs_down_def by (auto dest: spec [of _ "length U"])
  have "\<forall>q. F1 q = F q \<or> (F q = None \<and> F1 q = Some Dir \<and> prefix q U \<and> q \<noteq> [])"
  proof
    fix q
    from makedirs_from_frame [OF plain F1, of q]
    show "F1 q = F q \<or> (F q = None \<and> F1 q = Some Dir \<and> prefix q U \<and> q \<noteq> [])"
      by (auto simp: take_is_prefix)
  qed
  with res F1 d show ?thesis by simp
next
  case False
  then have res: "res = (Inr (), F)" by (auto simp: res_def)
  have "node_at F U = Some Dir"
  proof (cases "U = []")
    case True then show ?thesis by simp
  next
    case ne: False
    with False have "F U \<noteq> None" by (simp add: node_at_def)
    moreover have "\<not> is_file (F U)"
      using cl ne unfolding clear_from_iff [OF plain] by (auto dest: spec [of _ "length U"])
    ultimately show ?thesis using not_file_cases [of "F U"] ne by (auto simp: node_at_def)
  qed
  with res show ?thesis by simp
qed

lemma extract_member_ok:
  assumes tf: "target_free F dir z" and nm: "is_dir_entry z \<or> arcname z \<noteq> []"
    and plain: "''..'' \<notin> set dir" and nf: "fault z = NoFault"
  shows "\<exists>F2. extract_member dir z F = (Inr (), F2)
           \<and> node_at F2 (dir @ arcname z) = (if is_dir_entry z then Some Dir else Some (File (data z)))
           \<and> (\<forall>q. F2 q = F q
                  \<or> (F q = None \<and> F2 q = Some Dir \<and> prefix q (dir @ arcname z))
                  \<or> (\<not> is_dir_entry z \<and> q = dir @ arcname z \<and> F2 q = Some (File (data z))))"
proof -
  let ?T = "dir @ arcname z"
  let ?U = "butlast ?T"
  have pT: "''..'' \<notin> set ?T" using plain arcname_plain by simp
  then have pU: "''..'' \<notin> set ?U" by (rule butlast_plain)
  have np: "normpath ?T = ?T" by (rule normpath_plain [OF pT])
  from tf have cl: "clear_from [] ?U F" by (simp add: target_free_def)
  from upperdirs_ok [OF cl pU] obtain F1 where
    F1: "(if ?U \<noteq> [] \<and> node_at F ?U = None then makedirs ?U F else (Inr (), F)) = (Inr (), F1)"
    and up: "node_at F1 ?U = Some Dir"
    and fr: "\<forall>q. F1 q = F q \<or> (F q = None \<and> F1 q = Some Dir \<and> prefix q ?U \<and> q \<noteq> [])"
    by blast
  have pre: "prefix q ?T \<and> q \<noteq> ?T" if "prefix q ?U" and "q \<noteq> []" for q
  proof -
    have "length q \<le> length ?U" by (rule prefix_length_le [OF that(1)])
    then have "length q < length ?T" using that(2) by (cases q) auto
    moreover have "prefix q ?T"
      using that(1) prefixeq_butlast [of ?T] by (rule prefix_order.trans)
    ultimately show ?thesis by auto
  qed
  show ?thesis
  proof (cases "is_dir_entry z")
    case True
    with tf have nfile: "\<not> is_file (node_at F ?T)" by (simp add: target_free_def)
    show ?thesis
    proof (cases "node_at F1 ?T = Some Dir")
      case d: True
      with F1 True have "extract_member dir z F = (Inr (), F1)"
        by (simp add: extract_member_def Let_def np copy_member_def nf)
      moreover have "\<forall>q. F1 q = F q \<or> (F q = None \<and> F1 q = Some Dir \<and> prefix q ?T)"
        using fr pre by blast
      ultimately show ?thesis using True d by auto
    next
      case nd: False
      then have ne: "?T \<noteq> []" by auto
      have "\<not> is_file (F1 ?T)"
        using fr [rule_format, of ?T] nfile ne by (auto simp: node_at_def)
      with nd ne have none: "F1 ?T = None"
        using not_file_cases [of "F1 ?T"] by (auto simp: node_at_def)
      then have mk: "mkdir ?T F1 = (Inr (), F1(?T \<mapsto> Dir))"
        using up ne by (simp add: mkdir_def node_at_def)
      with F1 True nd have "extract_member dir z F = (Inr (), F1(?T \<mapsto> Dir))"
        by (simp add: extract_member_def Let_def np copy_member_def nf)
      moreover have "node_at (F1(?T \<mapsto> Dir)) ?T = Some Dir" by (simp add: node_at_def)
      moreover have "\<forall>q. (F1(?T \<mapsto> Dir)) q = F q
                  \<or> (F q = None \<and> (F1(?T \<mapsto> Dir)) q = Some Dir \<and> prefix q ?T)"
      proof
        fix q
        show "(F1(?T \<mapsto> Dir)) q = F q \<or> (F q = None \<and> (F1(?T \<mapsto> Dir)) q = Some Dir \<and> prefix q ?T)"
        proof (cases "q = ?T")
          case True
          have "F ?T = None" using fr [rule_format, of ?T] none by auto
          with True show ?thesis by simp
        next
          case False
          with fr [rule_format, of q] pre show ?thesis by auto
        qed
      qed
      ultimately show ?thesis using True by auto
    qed
  next
    case False
    with nm have ne: "?T \<noteq> []" by simp
    from False tf have nd: "F ?T \<noteq> Some Dir"
      using ne by (auto simp: target_free_def node_at_def split: if_splits)
    have "F1 ?T \<noteq> Some Dir"
      using fr [rule_format, of ?T] nd pre by auto
    then have wr: "write_file ?T (data z) F1 = (Inr (), F1(?T \<mapsto> File (data z)))"
      using up ne by (simp add: write_file_def node_at_def)
    with F1 False have "extract_member dir z F = (Inr (), F1(?T \<mapsto> File (data z)))"
      by (simp add: extract_member_def Let_def np copy_member_def nf)
    moreover have "node_at (F1(?T \<mapsto> File (data z))) ?T = Some (File (data z))"
      using ne by (simp add: node_at_def)
    moreover have "\<forall>q. (F1(?T \<mapsto> File (data z))) q = F q
                  \<or> (F q = None \<and> (F1(?T \<mapsto> File (data z))) q = Some Dir \<and> prefix q ?T)
                  \<or> (q = ?T \<and> (F1(?T \<mapsto> File (data z))) q = Some (File (data z)))"
    proof
      fix q
      show "(F1(?T \<mapsto> File (data z))) q = F q
                  \<or> (F q = None \<and> (F1(?T \<mapsto> File (data z))) q = Some Dir \<and> prefix q ?T)
                  \<or> (q = ?T \<and> (F1(?T \<mapsto> File (data z))) q = Some (File (data z)))"
      proof (cases "q = ?T")
        case True then show ?thesis by simp
      next
        case False
        with fr [rule_format, of q] pre show ?thesis by auto
      qed
    qed
    ultimately show ?thesis using False by auto
  qed
qed

lemma target_free_step:
  assumes tf: "target_free F dir z'"
    and ch: "\<forall>q. F2 q = F q
          \<or> (F q = None \<and> F2 q = Some Dir \<and> prefix q (dir @ arcname z))
          \<or> (\<not> is_dir_entry z \<and> q = dir @ arcname z \<and> F2 q = Some (File (data z)))"
    and nb: "\<not> blocks z z'" "\<not> blocks z' z"
    and plain: "''..'' \<notin> set dir"
  shows "target_free F2 dir z'"
proof -
  let ?T = "dir @ arcname z" and ?T' = "dir @ arcname z'"
  have new_file: "\<not> is_dir_entry z \<and> q = ?T" if "is_file (F2 q)" "\<not> is_file (F q)" for q
    using ch [rule_format, of q] that by auto
  have new_dir: "prefix q ?T" if "F2 q = Some Dir" "F q \<noteq> Some Dir" for q
    using ch [rule_format, of q] that by auto
  have pU: "''..'' \<notin> set (butlast ?T')"
    using plain arcname_plain [of z'] by (auto dest: in_set_butlastD)
  have cl: "clear_from [] (butlast ?T') F" using tf by (simp add: target_free_def)
  have "clear_from [] (butlast ?T') F2"
    unfolding clear_from_iff [OF pU]
  proof (intro allI impI)
    fix k assume k: "0 < k \<and> k \<le> length (butlast ?T')"
    show "\<not> is_file (F2 ([] @ take k (butlast ?T')))"
    proof
      assume f: "is_file (F2 ([] @ take k (butlast ?T')))"
      have "\<not> is_file (F ([] @ take k (butlast ?T')))"
        using cl k unfolding clear_from_iff [OF pU] by blast
      with f new_file have z: "\<not> is_dir_entry z" and eq: "take k (butlast ?T') = ?T" by auto
      have "prefix (take k (butlast ?T')) ?T'"
        using take_is_prefix [of k "butlast ?T'"] prefixeq_butlast [of ?T']
        by (rule prefix_order.trans)
      with eq have "prefix (arcname z) (arcname z')" by simp
      with z nb(1) show False by (simp add: blocks_def)
    qed
  qed
  moreover have "\<not> is_file (node_at F2 ?T')" if d: "is_dir_entry z'"
  proof
    assume f: "is_file (node_at F2 ?T')"
    then have ne: "?T' \<noteq> []" by (auto simp: node_at_def split: if_splits)
    from tf d have "\<not> is_file (node_at F ?T')" by (simp add: target_free_def)
    with f new_file [of ?T'] have "\<not> is_dir_entry z \<and> ?T' = ?T"
      unfolding node_at_nonempty [OF ne] by blast
    then have "blocks z z'" by (simp add: blocks_def)
    with nb(1) show False by simp
  qed
  moreover have "node_at F2 ?T' \<noteq> Some Dir" if d: "\<not> is_dir_entry z'"
  proof
    assume f: "node_at F2 ?T' = Some Dir"
    from tf d have n: "node_at F ?T' \<noteq> Some Dir" by (simp add: target_free_def)
    then have ne: "?T' \<noteq> []" by (auto simp: node_at_def split: if_splits)
    with f n new_dir [of ?T'] have "prefix ?T' ?T"
      unfolding node_at_nonempty [OF ne] by blast
    then have "blocks z' z" using d by (simp add: blocks_def)
    with nb(2) show False by simp
  qed
  ultimately show ?thesis by (simp add: target_free_def)
qed

lemma extract_members_ok:
  assumes "members_ok zs" and "list_all (target_free F dir) zs"
    and "list_all (\<lambda>z. fault z = NoFault) zs" and plain: "''..'' \<notin> set dir"
  shows "\<exists>F'. extract_members dir zs F = (Inr (), F')
           \<and> (\<forall>z \<in> set zs. node_at F' (dir @ arcname z)
                  = (if is_dir_entry z then Some Dir else Some (File (data z))))
           \<and> (\<forall>q. F' q = F q \<or> (F q = None \<and> F' q = Some Dir)
                  \<or> (\<exists>z \<in> set zs. \<not> is_dir_entry z \<and> q = dir @ arcname z))"
  using assms(1,2,3)
proof (induction zs arbitrary: F)
  case Nil
  then show ?case by simp
next
  case (Cons z zs)
  let ?T = "dir @ arcname z"
  from Cons.prems have nm: "is_dir_entry z \<or> arcname z \<noteq> []"
    and nb: "\<forall>z' \<in> set zs. \<not> blocks z z' \<and> \<not> blocks z' z"
    and ok: "members_ok zs"
    and tf: "target_free F dir z" and tfs: "\<forall>z' \<in> set zs. target_free F dir z'"
    and nf: "fault z = NoFault" and nfs: "list_all (\<lambda>z. fault z = NoFault) zs"
    by (simp_all add: list_all_iff)
  from extract_member_ok [OF tf nm plain nf] obtain F2 where
    F2: "extract_member dir z F = (Inr (), F2)"
    and at: "node_at F2 ?T = (if is_dir_entry z then Some Dir else Some (File (data z)))"
    and ch: "\<forall>q. F2 q = F q
          \<or> (F q = None \<and> F2 q = Some Dir \<and> prefix q ?T)
          \<or> (\<not> is_dir_entry z \<and> q = ?T \<and> F2 q = Some (File (data z)))"
    by blast
  have "list_all (target_free F2 dir) zs"
    unfolding list_all_iff
  proof
    fix z' assume z': "z' \<in> set zs"
    show "target_free F2 dir z'"
      using target_free_step [OF _ ch _ _ plain] tfs nb z' by blast
  qed
  from Cons.IH [OF ok this nfs] obtain F' where
    F': "extract_members dir zs F2 = (Inr (), F')"
    and all: "\<forall>z \<in> set zs. node_at F' (dir @ arcname z)
                  = (if is_dir_entry z then Some Dir else Some (File (data z)))"
    and fr: "\<forall>q. F' q = F2 q \<or> (F2 q = None \<and> F' q = Some Dir)
                  \<or> (\<exists>z \<in> set zs. \<not> is_dir_entry z \<and> q = dir @ arcname z)"
    by blast
  have run: "extract_members dir (z # zs) F = (Inr (), F')" using F2 F' by simp
  have not_target: "\<not> (\<exists>z' \<in> set zs. \<not> is_dir_entry z' \<and> ?T = dir @ arcname z')"
  proof
    assume "\<exists>z' \<in> set zs. \<not> is_dir_entry z' \<and> ?T = dir @ arcname z'"
    then obtain z' where z': "z' \<in> set zs" "\<not> is_dir_entry z'" "arcname z = arcname z'" by auto
    then have "blocks z' z" by (simp add: blocks_def)
    with nb z'(1) show False by blast
  qed
  have head: "node_at F' ?T = (if is_dir_entry z then Some Dir else Some (File (data z)))"
  proof (cases "?T = []")
    case True
    with at show ?thesis by simp
  next
    case False
    with at have "F2 ?T = (if is_dir_entry z then Some Dir else Some (File (data z)))"
      unfolding node_at_nonempty [OF False] by blast
    moreover have "F' ?T = F2 ?T \<or> F2 ?T = None"
      using fr [rule_format, of ?T] not_target by auto
    ultimately show ?thesis unfolding node_at_nonempty [OF False] by auto
  qed
  have frame: "\<forall>q. F' q = F q \<or> (F q = None \<and> F' q = Some Dir)
                  \<or> (\<exists>z' \<in> set (z # zs). \<not> is_dir_entry z' \<and> q = dir @ arcname z')"
  proof
    fix q
    show "F' q = F q \<or> (F q = None \<and> F' q = Some Dir)
                  \<or> (\<exists>z' \<in> set (z # zs). \<not> is_dir_entry z' \<and> q = dir @ arcname z')"
      using fr [rule_format, of q] ch [rule_format, of q] by auto
  qed
  from run head all frame show ?case by auto
qed


text \<open>When no two members have the same name, \<open>extractall\<close> extracts each member itself.\<close>

lemma getinfo_distinct:
  "distinct (map filename zs) \<Longrightarrow> z \<in> set zs \<Longrightarrow> getinfo zs (filename z) = Inr z"
proof -
  assume d: "distinct (map filename zs)" and z: "z \<in> set zs"
  have "filter (\<lambda>y. filename y = filename z) zs = [z]"
    using d z
  proof (induction zs)
    case Nil
    then show ?case by simp
  next
    case (Cons y ys)
    show ?case
    proof (cases "y = z")
      case True
      with Cons.prems(1) have "filename z \<notin> filename ` set ys" by simp
      then have "\<forall>u \<in> set ys. filename u \<noteq> filename z" by (metis imageI)
      then have "filter (\<lambda>y. filename y = filename z) ys = []" by (simp add: filter_empty_conv)
      with True show ?thesis by simp
    next
      case False
      with Cons.prems have zin: "z \<in> set ys" and dys: "distinct (map filename ys)" by auto
      with Cons.prems(1) have "filename y \<noteq> filename z" by auto
      with Cons.IH [OF dys zin] show ?thesis by simp
    qed
  qed
  then show ?thesis by (simp add: getinfo_def)
qed

lemma extract_names_members:
  "distinct (map filename zs) \<Longrightarrow> set ms \<subseteq> set zs
     \<Longrightarrow> extract_names dir zs (map filename ms) F = extract_members dir ms F"
proof (induction ms arbitrary: F)
  case Nil
  then show ?case by simp
next
  case (Cons m ms)
  then have g: "getinfo zs (filename m) = Inr m" and sub: "set ms \<subseteq> set zs"
    by (auto intro: getinfo_distinct)
  show ?case
    using g Cons.IH [OF Cons.prems(1) sub]
    by (simp split: prod.splits sum.splits)
qed

lemma extractall_members:
  "distinct (map filename zs) \<Longrightarrow> extractall dir zs F = extract_members dir zs F"
  by (simp add: extractall_def extract_names_members)

lemma members_ok_named: "members_ok zs \<Longrightarrow> z \<in> set zs \<Longrightarrow> is_dir_entry z \<or> arcname z \<noteq> []"
  by (induction zs) auto

lemma parts_of_raw_dir: "path_parts ''data/01_raw'' = [''data'', ''01_raw'']"
  by code_simp

lemma parts_of_out: "path_parts ''out'' = [''out'']"
  by code_simp

lemma arcname_a_txt: "arcname \<lparr>filename = ''a.txt'', data = d, fault = f\<rparr> = [''a.txt'']"
  by (simp add: arcname_def)

lemma arcname_sub_b_txt:
  "arcname \<lparr>filename = ''sub/b.txt'', data = d, fault = f\<rparr> = [''sub'', ''b.txt'']"
  by (simp add: arcname_def)

lemma a_txt_is_file: "\<not> is_dir_entry \<lparr>filename = ''a.txt'', data = d, fault = f\<rparr>"
  by (simp add: is_dir_entry_def)

lemma sub_b_txt_is_file: "\<not> is_dir_entry \<lparr>filename = ''sub/b.txt'', data = d, fault = f\<rparr>"
  by (simp add: is_dir_entry_def)

section \<open>The failures of an acquisition\<close>

lemma raise_for_status_ok:
  "\<not> (400 \<le> status_code r \<and> status_code r < 600) \<Longrightarrow> raise_for_status r = Inr ()"
  by (auto simp: raise_for_status_def)

lemma download_file_from_url_cases:
  assumes "download_file_from_url E url omit w = (r, w1)"
  shows "(\<exists>e. urlparse_path E url = Inl e \<and> r = Inl e)
       \<or> (\<exists>p message. urlparse_path E url = Inr p \<and> \<not> omit
              \<and> verify_extension E url p w = (Inr (False, message), w)
              \<and> r = Inl (not_a_zip_error url message))
       \<or> (\<exists>p e. urlparse_path E url = Inr p \<and> get_content E url = Inl e
              \<and> r = Inl (download_error url e))
       \<or> (\<exists>p c. urlparse_path E url = Inr p \<and> get_content E url = Inr c
              \<and> r = Inr (c, path_name p))"
proof (cases "urlparse_path E url")
  case (Inl e)
  with assms show ?thesis by (simp add: download_file_from_url_def)
next
  case (Inr p)
  obtain b m where v: "verify_extension E url p w = (Inr (b, m), w)"
    using verify_extension_Inr by blast
  show ?thesis
  proof (cases "get_content E url")
    case (Inl e)
    with assms Inr v show ?thesis
      by (auto simp: download_file_from_url_def split: if_splits)
  next
    case c: (Inr c)
    with assms Inr v show ?thesis
      by (auto simp: download_file_from_url_def split: if_splits)
  qed
qed

lemma extract_zip_content_error:
  assumes "fst (extract_zip_content E c n d w) = Inl x"
  shows "\<exists>e F. unzip E c d (fs w) = (Inl e, F) \<and> x = unzip_error n e"
  using assms
  by (auto simp: extract_zip_content_def split: prod.splits sum.splits)


lemma download_fs: "fs (snd (download_file_from_url E url omit w)) = fs w"
proof (cases "urlparse_path E url")
  case (Inl e)
  then show ?thesis by (simp add: download_file_from_url_def)
next
  case (Inr p)
  obtain b m where v: "verify_extension E url p w = (Inr (b, m), w)"
    using verify_extension_Inr by blast
  with Inr show ?thesis
    by (simp add: download_file_from_url_def split: sum.splits)
qed

text \<open>
  C3, as the claim states it, fails: a 404 answer to the GET request and a refused
  connection both end in a \<open>RuntimeError\<close>, so the two are not of distinct kinds, and
  the message of the second holds neither the URL nor a file name.
\<close>

theorem status_and_transport_failures_same_kind:
  "fst (download_and_extract_zip
     (fixed_env ''/data/set.zip'' (Inl (Exn ConnectionError ''unreachable''))
        (Inr (http_response 404 ''Not Found'' zip_url [] [])) (Inr two_files))
     zip_url ''data/01_raw'' False empty_world)
   = Inl (Exn RuntimeError ''Error downloading the file: 404 Client Error: Not Found for url: https://example.org/data/set.zip'')
  \<and> fst (download_and_extract_zip
     (fixed_env ''/data/set.zip'' (Inl (Exn ConnectionError ''unreachable''))
        (Inl (Exn ConnectionError ''Connection refused'')) (Inr two_files))
     zip_url ''data/01_raw'' False empty_world)
   = Inl (Exn RuntimeError ''Error downloading the file: Connection refused'')"
  by code_simp

text \<open>
  C3, amended: a failure of an acquisition is one of seven forms. The exception of the
  URL parsing, as it is. The \<open>ValueError\<close> of a negative verdict, with the URL and the
  reason the verification gave. For a failed GET request: a \<open>RuntimeError\<close> with the
  text of the cause when the cause is a \<open>RequestException\<close> (an HTTP status error and a
  transport error alike); a \<open>ValueError\<close> with the URL and the text of the cause when
  it is a \<open>TypeError\<close>; the cause as it is otherwise. For a failed extraction of the
  downloaded bytes, where the cause is the exception of \<open>os.makedirs\<close>, of
  \<open>ZipFile\<close> or of \<open>extractall\<close>: a \<open>ValueError\<close> with the file name when the cause
  is a \<open>BadZipFile\<close>; a \<open>RuntimeError\<close> with the text of the cause otherwise.
\<close>

theorem acquisition_failure_forms:
  assumes "fst (download_and_extract_zip E url extract_to_dir omit_verification w) = Inl x"
  shows "(\<exists>e. urlparse_path E url = Inl e \<and> x = e)
       \<or> (\<exists>p message. urlparse_path E url = Inr p \<and> \<not> omit_verification
               \<and> verify_extension E url p w = (Inr (False, message), w)
               \<and> x = Exn ValueError (''The url provided '' @ url @ '' doesn'' @ apos
                     @ ''t correspond to a ZIP file. '' @ message))
       \<or> (\<exists>e. get_content E url = Inl e \<and> is_RequestException e
               \<and> x = Exn RuntimeError (''Error downloading the file: '' @ msg e))
       \<or> (\<exists>e. get_content E url = Inl e \<and> cls e = TypeError
               \<and> x = Exn ValueError (''Invalid URL: '' @ url @ ''. Error: '' @ msg e))
       \<or> (\<exists>e. get_content E url = Inl e \<and> \<not> is_RequestException e \<and> cls e \<noteq> TypeError
               \<and> x = e)
       \<or> (\<exists>p c e F. urlparse_path E url = Inr p \<and> get_content E url = Inr c
               \<and> unzip E c extract_to_dir (fs w) = (Inl e, F) \<and> cls e = BadZipFile
               \<and> x = Exn ValueError (''Error: The downloaded file '' @ apos @ path_name p @ apos
                     @ '' is not a valid zip file.''))
       \<or> (\<exists>p c e F. urlparse_path E url = Inr p \<and> get_content E url = Inr c
               \<and> unzip E c extract_to_dir (fs w) = (Inl e, F) \<and> cls e \<noteq> BadZipFile
               \<and> x = Exn RuntimeError (''An error occurred during unzipping: '' @ msg e))"
proof -
  obtain r w1 where d: "download_file_from_url E url omit_verification w = (r, w1)"
    by (cases "download_file_from_url E url omit_verification w")
  have fsw: "fs w1 = fs w" using download_fs [of E url omit_verification w] d by simp
  from download_file_from_url_cases [OF d]
  consider e where "urlparse_path E url = Inl e" "r = Inl e"
    | p message where "urlparse_path E url = Inr p" "\<not> omit_verification"
        "verify_extension E url p w = (Inr (False, message), w)"
        "r = Inl (not_a_zip_error url message)"
    | p e where "urlparse_path E url = Inr p" "get_content E url = Inl e"
        "r = Inl (download_error url e)"
    | p c where "urlparse_path E url = Inr p" "get_content E url = Inr c"
        "r = Inr (c, path_name p)"
    by blast
  then show ?thesis
  proof cases
    case 1
    with d assms show ?thesis by (simp add: download_and_extract_zip_def)
  next
    case 2
    with d assms have "x = not_a_zip_error url message"
      by (simp add: download_and_extract_zip_def)
    with 2(1,2,3) show ?thesis by (simp add: not_a_zip_error_def)
  next
    case 3
    with d assms have "x = download_error url e" by (simp add: download_and_extract_zip_def)
    with 3(2) show ?thesis by (auto simp: download_error_def)
  next
    case 4
    with d assms have "fst (extract_zip_content E c (path_name p) extract_to_dir w1) = Inl x"
      by (simp add: download_and_extract_zip_def)
    then obtain e F where e: "unzip E c extract_to_dir (fs w) = (Inl e, F)"
      and x: "x = unzip_error (path_name p) e"
      using extract_zip_content_error fsw by metis
    show ?thesis
    proof (cases "cls e = BadZipFile")
      case True
      with 4(1,2) e x have "\<exists>p c e F. urlparse_path E url = Inr p \<and> get_content E url = Inr c
               \<and> unzip E c extract_to_dir (fs w) = (Inl e, F) \<and> cls e = BadZipFile
               \<and> x = Exn ValueError (''Error: The downloaded file '' @ apos @ path_name p @ apos
                     @ '' is not a valid zip file.'')"
        by (auto simp: unzip_error_def)
      then show ?thesis by blast
    next
      case False
      with 4(1,2) e x have "\<exists>p c e F. urlparse_path E url = Inr p \<and> get_content E url = Inr c
               \<and> unzip E c extract_to_dir (fs w) = (Inl e, F) \<and> cls e \<noteq> BadZipFile
               \<and> x = Exn RuntimeError (''An error occurred during unzipping: '' @ msg e)"
        by (auto simp: unzip_error_def)
      then show ?thesis by blast
    qed
  qed
qed

theorem acquisition_failure_forms_witness:
  "fst (download_and_extract_zip
     (fixed_env ''/data/set.zip'' (Inl (Exn ConnectionError ''unreachable''))
        (Inr (http_response 404 ''Not Found'' zip_url [] [])) (Inr two_files))
     zip_url ''data/01_raw'' False empty_world)
   = Inl (Exn RuntimeError ''Error downloading the file: 404 Client Error: Not Found for url: https://example.org/data/set.zip'')
   \<and> (\<exists>e. get_content
           (fixed_env ''/data/set.zip'' (Inl (Exn ConnectionError ''unreachable''))
              (Inr (http_response 404 ''Not Found'' zip_url [] [])) (Inr two_files)) zip_url = Inl e
         \<and> Exn RuntimeError ''Error downloading the file: 404 Client Error: Not Found for url: https://example.org/data/set.zip''
             = Exn RuntimeError (''Error downloading the file: '' @ msg e))"
proof -
  let ?E = "fixed_env ''/data/set.zip'' (Inl (Exn ConnectionError ''unreachable''))
        (Inr (http_response 404 ''Not Found'' zip_url [] [])) (Inr two_files)"
  let ?x = "Exn RuntimeError ''Error downloading the file: 404 Client Error: Not Found for url: https://example.org/data/set.zip''"
  have h: "fst (download_and_extract_zip ?E zip_url ''data/01_raw'' False empty_world) = Inl ?x"
    by code_simp
  have p: "urlparse_path ?E zip_url = Inr ''/data/set.zip''" by (simp add: fixed_env_def)
  have g: "get_content ?E zip_url
      = Inl (Exn HTTPError ''404 Client Error: Not Found for url: https://example.org/data/set.zip'')"
    by code_simp
  from acquisition_failure_forms [OF h]
  have "\<exists>e. get_content ?E zip_url = Inl e \<and> ?x = Exn RuntimeError (''Error downloading the file: '' @ msg e)"
    using p g by auto
  with h show ?thesis by blast
qed

text \<open>
  C9, as the claim states it, fails: a HEAD response with the status 304, which is not
  a 2xx status, and the \<open>Content-Type\<close> \<open>Application/ZIP\<close> gives a positive verdict.
\<close>

theorem probe_status_304_is_positive:
  "fst (check_url_is_a_zip_from_header
          (fixed_env ''/data/set.csv''
             (Inr (http_response 304 ''Not Modified'' csv_url
                     [(''Content-Type'', ''Application/ZIP'')] []))
             (Inl (Exn ConnectionError ''unreachable'')) not_a_zip)
          csv_url empty_world)
   = Inr (True, ''Based on Content-Type header: '' @ apos @ ''application/zip'' @ apos
                   @ '', it is identified as a ZIP file.'')"
  by code_simp

text \<open>
  C9, amended: the probe never raises; it sends one HEAD request and returns a verdict.
  When the request raises an exception (a network error, a malformed URL), or when the
  response has a status from 400 to 599, the verdict is negative and its reason ends
  with the text of the cause. A response with any other status is judged by its
  \<open>Content-Type\<close>: the verdict is positive exactly when the lower-cased header holds
  \<open>application/zip\<close> or \<open>application/x-zip-compressed\<close>.
\<close>

theorem probe_failure_is_negative_verdict:
  "(\<exists>b m. check_url_is_a_zip_from_header E url w = (Inr (b, m), w\<lparr>net := net w @ [HEAD url]\<rparr>))
   \<and> (\<forall>e. requests_head E url = Inl e \<longrightarrow>
         (\<exists>m. fst (check_url_is_a_zip_from_header E url w) = Inr (False, m @ msg e)))
   \<and> (\<forall>r. requests_head E url = Inr r \<and> 400 \<le> status_code r \<and> status_code r < 600 \<longrightarrow>
         (\<exists>m e. raise_for_status r = Inl e
            \<and> fst (check_url_is_a_zip_from_header E url w) = Inr (False, m @ msg e)))
   \<and> (\<forall>r. requests_head E url = Inr r \<and> \<not> (400 \<le> status_code r \<and> status_code r < 600) \<longrightarrow>
         (\<exists>m. fst (check_url_is_a_zip_from_header E url w)
            = Inr (str_contains ''application/zip''
                     (str_lower (headers_get (headers r) ''Content-Type'' []))
                   \<or> str_contains ''application/x-zip-compressed''
                     (str_lower (headers_get (headers r) ''Content-Type'' [])), m)))"
proof (intro conjI allI impI)
  show "\<exists>b m. check_url_is_a_zip_from_header E url w
          = (Inr (b, m), w\<lparr>net := net w @ [HEAD url]\<rparr>)"
    by (rule check_url_Inr)
next
  fix e assume "requests_head E url = Inl e"
  then show "\<exists>m. fst (check_url_is_a_zip_from_header E url w) = Inr (False, m @ msg e)"
    by (auto simp: check_url_is_a_zip_from_header_def head_content_type_def Let_def)
next
  fix r assume a: "requests_head E url = Inr r \<and> 400 \<le> status_code r \<and> status_code r < 600"
  then obtain m where m: "raise_for_status r = Inl (Exn HTTPError m)"
    using raise_for_status_error by blast
  with a show "\<exists>m e. raise_for_status r = Inl e
            \<and> fst (check_url_is_a_zip_from_header E url w) = Inr (False, m @ msg e)"
    by (auto simp: check_url_is_a_zip_from_header_def head_content_type_def Let_def
        is_RequestException_def)
next
  fix r assume a: "requests_head E url = Inr r \<and> \<not> (400 \<le> status_code r \<and> status_code r < 600)"
  then have "raise_for_status r = Inr ()" using raise_for_status_ok by blast
  with a show "\<exists>m. fst (check_url_is_a_zip_from_header E url w)
            = Inr (str_contains ''application/zip''
                     (str_lower (headers_get (headers r) ''Content-Type'' []))
                   \<or> str_contains ''application/x-zip-compressed''
                     (str_lower (headers_get (headers r) ''Content-Type'' [])), m)"
    by (auto simp: check_url_is_a_zip_from_header_def head_content_type_def Let_def)
qed

theorem probe_failure_is_negative_verdict_witness:
  "(\<exists>m. fst (check_url_is_a_zip_from_header
          (fixed_env ''/data/set.csv'' (Inl (Exn ConnectionError ''Connection refused''))
             (Inl (Exn ConnectionError ''Connection refused'')) not_a_zip)
          csv_url empty_world) = Inr (False, m @ ''Connection refused''))
   \<and> (\<exists>m. fst (check_url_is_a_zip_from_header
          (fixed_env ''/data/set.csv''
             (Inr (http_response 404 ''Not Found'' csv_url [(''Content-Type'', ''application/zip'')] []))
             (Inl (Exn ConnectionError ''Connection refused'')) not_a_zip)
          csv_url empty_world)
        = Inr (False, m @ ''404 Client Error: Not Found for url: https://example.org/data/set.csv''))
   \<and> (\<exists>m. fst (check_url_is_a_zip_from_header
          (fixed_env ''/data/set.csv''
             (Inr (http_response 200 ''OK'' csv_url [(''content-type'', ''Text/CSV'')] []))
             (Inl (Exn ConnectionError ''Connection refused'')) not_a_zip)
          csv_url empty_world) = Inr (False, m))
   \<and> (\<exists>m. fst (check_url_is_a_zip_from_header
          (fixed_env ''/data/set.csv''
             (Inr (http_response 200 ''OK'' csv_url
                     [(''content-type'', ''Application/X-Zip-Compressed'')] []))
             (Inl (Exn ConnectionError ''Connection refused'')) not_a_zip)
          csv_url empty_world) = Inr (True, m))"
proof -
  let ?E1 = "fixed_env ''/data/set.csv'' (Inl (Exn ConnectionError ''Connection refused''))
             (Inl (Exn ConnectionError ''Connection refused'')) not_a_zip"
  let ?r = "http_response 404 ''Not Found'' csv_url [(''Content-Type'', ''application/zip'')] []"
  let ?E2 = "fixed_env ''/data/set.csv'' (Inr ?r)
             (Inl (Exn ConnectionError ''Connection refused'')) not_a_zip"
  let ?r3 = "http_response 200 ''OK'' csv_url [(''content-type'', ''Text/CSV'')] []"
  let ?E3 = "fixed_env ''/data/set.csv'' (Inr ?r3)
             (Inl (Exn ConnectionError ''Connection refused'')) not_a_zip"
  let ?r4 = "http_response 200 ''OK'' csv_url
                     [(''content-type'', ''Application/X-Zip-Compressed'')] []"
  let ?E4 = "fixed_env ''/data/set.csv'' (Inr ?r4)
             (Inl (Exn ConnectionError ''Connection refused'')) not_a_zip"
  have h1: "requests_head ?E1 csv_url = Inl (Exn ConnectionError ''Connection refused'')"
    by (simp add: fixed_env_def)
  have h2: "requests_head ?E2 csv_url = Inr ?r \<and> 400 \<le> status_code ?r \<and> status_code ?r < 600"
    by (simp add: fixed_env_def http_response_def)
  have h3: "requests_head ?E3 csv_url = Inr ?r3
      \<and> \<not> (400 \<le> status_code ?r3 \<and> status_code ?r3 < 600)"
    by (simp add: fixed_env_def http_response_def)
  have h4: "requests_head ?E4 csv_url = Inr ?r4
      \<and> \<not> (400 \<le> status_code ?r4 \<and> status_code ?r4 < 600)"
    by (simp add: fixed_env_def http_response_def)
  have r: "raise_for_status ?r
      = Inl (Exn HTTPError ''404 Client Error: Not Found for url: https://example.org/data/set.csv'')"
    by code_simp
  have t3: "\<not> (str_contains ''application/zip''
                (str_lower (headers_get (headers ?r3) ''Content-Type'' []))
              \<or> str_contains ''application/x-zip-compressed''
                (str_lower (headers_get (headers ?r3) ''Content-Type'' [])))"
    by code_simp
  have t4: "str_contains ''application/zip''
                (str_lower (headers_get (headers ?r4) ''Content-Type'' []))
              \<or> str_contains ''application/x-zip-compressed''
                (str_lower (headers_get (headers ?r4) ''Content-Type'' []))"
    by code_simp
  from probe_failure_is_negative_verdict [of ?E1 csv_url empty_world] h1
  have a: "\<exists>m. fst (check_url_is_a_zip_from_header ?E1 csv_url empty_world)
             = Inr (False, m @ ''Connection refused'')"
    by fastforce
  from probe_failure_is_negative_verdict [of ?E2 csv_url empty_world] h2
  have "\<exists>m e. raise_for_status ?r = Inl e
          \<and> fst (check_url_is_a_zip_from_header ?E2 csv_url empty_world) = Inr (False, m @ msg e)"
    by blast
  with r have b: "\<exists>m. fst (check_url_is_a_zip_from_header ?E2 csv_url empty_world)
        = Inr (False, m @ ''404 Client Error: Not Found for url: https://example.org/data/set.csv'')"
    by auto
  from probe_failure_is_negative_verdict [of ?E3 csv_url empty_world] h3
  have "\<exists>m. fst (check_url_is_a_zip_from_header ?E3 csv_url empty_world)
            = Inr (str_contains ''application/zip''
                     (str_lower (headers_get (headers ?r3) ''Content-Type'' []))
                   \<or> str_contains ''application/x-zip-compressed''
                     (str_lower (headers_get (headers ?r3) ''Content-Type'' [])), m)"
    by blast
  with t3 have c: "\<exists>m. fst (check_url_is_a_zip_from_header ?E3 csv_url empty_world) = Inr (False, m)"
    by simp
  from probe_failure_is_negative_verdict [of ?E4 csv_url empty_world] h4
  have "\<exists>m. fst (check_url_is_a_zip_from_header ?E4 csv_url empty_world)
            = Inr (str_contains ''application/zip''
                     (str_lower (headers_get (headers ?r4) ''Content-Type'' []))
                   \<or> str_contains ''application/x-zip-compressed''
                     (str_lower (headers_get (headers ?r4) ''Content-Type'' [])), m)"
    by blast
  with t4 have d: "\<exists>m. fst (check_url_is_a_zip_from_header ?E4 csv_url empty_world) = Inr (True, m)"
    by simp
  from a b c d show ?thesis by blast
qed




section \<open>The extraction\<close>

text \<open>
  C4, as the claim states it, fails: an archive may hold two members of the same name;
  both names are extracted to the same path, and the file holds the bytes of the
  second member, not those of the first. And an archive that \<open>ZipFile\<close> opens may hold
  a member with a bad CRC: the extraction then raises.
\<close>

theorem duplicate_member_is_overwritten:
  "fst (extract_zip_content
          (fixed_env ''/data/set.zip'' (Inl (Exn ConnectionError ''unreachable''))
             (Inr (http_response 200 ''OK'' zip_url [] [80, 75])) (Inr same_name_twice))
          [80, 75] ''set.zip'' ''out'' empty_world) = Inr ()
   \<and> fs (snd (extract_zip_content
          (fixed_env ''/data/set.zip'' (Inl (Exn ConnectionError ''unreachable''))
             (Inr (http_response 200 ''OK'' zip_url [] [80, 75])) (Inr same_name_twice))
          [80, 75] ''set.zip'' ''out'' empty_world)) [''out'', ''a.txt'']
       = Some (File [2])
   \<and> fst (extract_zip_content
          (fixed_env ''/data/set.zip'' (Inl (Exn ConnectionError ''unreachable''))
             (Inr (http_response 200 ''OK'' zip_url [] [80, 75])) (Inr bad_crc_file))
          [80, 75] ''set.zip'' ''out'' empty_world)
       = Inl (Exn ValueError (''Error: The downloaded file '' @ apos @ ''set.zip'' @ apos
                @ '' is not a valid zip file.''))"
  by code_simp

text \<open>
  C4, amended: when the bytes are a ZIP archive whose members have distinct names, can
  all be read, and are compatible (no file member's path is the path of another member
  or a directory above it, and every file member has a name), the directory's name is
  not empty and has no \<open>..\<close> component, no regular file stands on the way down to the
  directory or to a member's target, and no directory stands at a file member's
  target, then the extraction succeeds; afterwards the extraction directory and every
  directory above it exist, every file member is a file with the member's bytes at the
  directory's path followed by the member's name (without its empty, \<open>.\<close> and \<open>..\<close>
  components), and every directory member is a directory there.
\<close>

theorem extraction_writes_members:
  assumes zf: "ZipFile E zip_content = Inr zs"
    and ok: "members_ok zs"
    and dn: "distinct (map filename zs)"
    and rd: "list_all (\<lambda>z. fault z = NoFault) zs"
    and ne: "extract_to_dir \<noteq> []"
    and plain: "''..'' \<notin> set (path_parts extract_to_dir)"
    and cl: "clear_from [] (path_parts extract_to_dir) (fs w)"
    and tf: "list_all (target_free (fs w) (path_parts extract_to_dir)) zs"
  shows "\<exists>F'. extract_zip_content E zip_content zip_file_name extract_to_dir w
             = (Inr (), w\<lparr>fs := F'\<rparr>)
           \<and> (\<forall>k \<le> length (path_parts extract_to_dir).
                 node_at F' (take k (path_parts extract_to_dir)) = Some Dir)
           \<and> (\<forall>z \<in> set zs. node_at F' (path_parts extract_to_dir @ arcname z)
                 = (if is_dir_entry z then Some Dir else Some (File (data z))))"
proof -
  let ?D = "path_parts extract_to_dir"
  let ?root = "\<lparr>filename = ''/'', data = [], fault = NoFault\<rparr>"
  have root: "is_dir_entry ?root" "arcname ?root = []"
    by (simp_all add: is_dir_entry_def arcname_def)
  from os_makedirs_ok [OF ne cl] obtain F1 where
    mk: "os_makedirs extract_to_dir (fs w) = (Inr (), F1)"
    and dd: "dirs_down F1 (normpath ?D)"
    by blast
  from dd have dirs: "\<forall>k \<le> length ?D. node_at F1 (take k ?D) = Some Dir"
    by (simp add: normpath_plain [OF plain] dirs_down_def)
  have fr1: "\<forall>q. F1 q = fs w q \<or> (fs w q = None \<and> F1 q = Some Dir \<and> prefix q ?D)"
    using os_makedirs_frame [OF plain mk] by blast
  have "list_all (target_free F1 ?D) zs"
    unfolding list_all_iff
  proof
    fix z assume z: "z \<in> set zs"
    then have t: "target_free (fs w) ?D z" using tf by (simp add: list_all_iff)
    have ch: "\<forall>q. F1 q = fs w q
          \<or> (fs w q = None \<and> F1 q = Some Dir \<and> prefix q (?D @ arcname ?root))
          \<or> (\<not> is_dir_entry ?root \<and> q = ?D @ arcname ?root \<and> F1 q = Some (File (data ?root)))"
      using fr1 root by simp
    have b1: "\<not> blocks ?root z" using root by (simp add: blocks_def)
    have b2: "\<not> blocks z ?root"
      using members_ok_named [OF ok z] root by (auto simp: blocks_def)
    show "target_free F1 ?D z"
      by (rule target_free_step [OF t ch b1 b2 plain])
  qed
  from extract_members_ok [OF ok this rd plain] obtain F' where
    ex: "extract_members ?D zs F1 = (Inr (), F')"
    and all: "\<forall>z \<in> set zs. node_at F' (?D @ arcname z)
                  = (if is_dir_entry z then Some Dir else Some (File (data z)))"
    and fr: "\<forall>q. F' q = F1 q \<or> (F1 q = None \<and> F' q = Some Dir)
                  \<or> (\<exists>z \<in> set zs. \<not> is_dir_entry z \<and> q = ?D @ arcname z)"
    by blast
  have run: "extract_zip_content E zip_content zip_file_name extract_to_dir w
             = (Inr (), w\<lparr>fs := F'\<rparr>)"
    using mk zf ex by (simp add: extract_zip_content_def unzip_def extractall_members [OF dn])
  have "\<forall>k \<le> length ?D. node_at F' (take k ?D) = Some Dir"
  proof (intro allI impI)
    fix k assume k: "k \<le> length ?D"
    show "node_at F' (take k ?D) = Some Dir"
    proof (cases "take k ?D = []")
      case True
      then show ?thesis by (simp only: node_at_Nil)
    next
      case False
      from dirs k have "node_at F1 (take k ?D) = Some Dir" by blast
      then have d: "F1 (take k ?D) = Some Dir"
        by (simp only: node_at_nonempty [OF False])
      have "\<not> (\<exists>z \<in> set zs. \<not> is_dir_entry z \<and> take k ?D = ?D @ arcname z)"
      proof
        assume "\<exists>z \<in> set zs. \<not> is_dir_entry z \<and> take k ?D = ?D @ arcname z"
        then obtain z where z: "z \<in> set zs" "\<not> is_dir_entry z" "take k ?D = ?D @ arcname z"
          by blast
        have "length (take k ?D) \<le> length ?D" by simp
        with z(3) have "length (?D @ arcname z) \<le> length ?D" by (simp only:)
        then have "arcname z = []" by simp
        with members_ok_named [OF ok z(1)] z(2) show False by simp
      qed
      with fr [rule_format, of "take k ?D"] d have "F' (take k ?D) = Some Dir" by auto
      then show ?thesis by (simp only: node_at_nonempty [OF False])
    qed
  qed
  with run all show ?thesis by blast
qed

theorem extraction_writes_members_witness:
  "fst (extract_zip_content
          (fixed_env ''/data/set.zip'' (Inl (Exn ConnectionError ''unreachable''))
             (Inr (http_response 200 ''OK'' zip_url [] [80, 75])) (Inr two_files))
          [80, 75] ''set.zip'' ''data/01_raw'' empty_world) = Inr ()
   \<and> fs (snd (extract_zip_content
          (fixed_env ''/data/set.zip'' (Inl (Exn ConnectionError ''unreachable''))
             (Inr (http_response 200 ''OK'' zip_url [] [80, 75])) (Inr two_files))
          [80, 75] ''set.zip'' ''data/01_raw'' empty_world)) [''data'', ''01_raw'', ''a.txt'']
       = Some (File [97])
   \<and> fs (snd (extract_zip_content
          (fixed_env ''/data/set.zip'' (Inl (Exn ConnectionError ''unreachable''))
             (Inr (http_response 200 ''OK'' zip_url [] [80, 75])) (Inr two_files))
          [80, 75] ''set.zip'' ''data/01_raw'' empty_world)) [''data'', ''01_raw'', ''sub'', ''b.txt'']
       = Some (File [98, 98])
   \<and> fs (snd (extract_zip_content
          (fixed_env ''/data/set.zip'' (Inl (Exn ConnectionError ''unreachable''))
             (Inr (http_response 200 ''OK'' zip_url [] [80, 75])) (Inr two_files))
          [80, 75] ''set.zip'' ''data/01_raw'' empty_world)) [''data'', ''01_raw'']
       = Some Dir"
proof -
  let ?E = "fixed_env ''/data/set.zip'' (Inl (Exn ConnectionError ''unreachable''))
             (Inr (http_response 200 ''OK'' zip_url [] [80, 75])) (Inr two_files)"
  let ?D = "[''data'', ''01_raw'']"
  let ?a = "\<lparr>filename = ''a.txt'', data = [97], fault = NoFault\<rparr>"
  let ?b = "\<lparr>filename = ''sub/b.txt'', data = [98, 98], fault = NoFault\<rparr>"
  have zf: "ZipFile ?E [80, 75] = Inr two_files" by (simp add: fixed_env_def)
  have ok: "members_ok two_files"
    by (simp add: two_files_def blocks_def arcname_a_txt arcname_sub_b_txt a_txt_is_file
        sub_b_txt_is_file)
  have dn: "distinct (map filename two_files)" by (simp add: two_files_def)
  have rd: "list_all (\<lambda>z. fault z = NoFault) two_files" by (simp add: two_files_def)
  have ne: "''data/01_raw'' \<noteq> []" by simp
  have plain: "''..'' \<notin> set (path_parts ''data/01_raw'')" by (simp add: parts_of_raw_dir)
  have cl: "clear_from [] (path_parts ''data/01_raw'') (fs empty_world)"
    by (simp add: parts_of_raw_dir empty_world_def)
  have tf: "list_all (target_free (fs empty_world) (path_parts ''data/01_raw'')) two_files"
    by (simp add: two_files_def target_free_def parts_of_raw_dir empty_world_def arcname_a_txt
        arcname_sub_b_txt a_txt_is_file sub_b_txt_is_file node_at_def)
  from extraction_writes_members [OF zf ok dn rd ne plain cl tf, of "''set.zip''"] obtain F' where
    run: "extract_zip_content ?E [80, 75] ''set.zip'' ''data/01_raw'' empty_world
            = (Inr (), empty_world\<lparr>fs := F'\<rparr>)"
    and dirs: "\<forall>k \<le> length (path_parts ''data/01_raw'').
                 node_at F' (take k (path_parts ''data/01_raw'')) = Some Dir"
    and all: "\<forall>z \<in> set two_files. node_at F' (path_parts ''data/01_raw'' @ arcname z)
                 = (if is_dir_entry z then Some Dir else Some (File (data z)))"
    by blast
  from all have "node_at F' (?D @ arcname ?a) = Some (File [97])"
    and "node_at F' (?D @ arcname ?b) = Some (File [98, 98])"
    by (simp_all add: two_files_def parts_of_raw_dir a_txt_is_file sub_b_txt_is_file)
  then have a: "F' [''data'', ''01_raw'', ''a.txt''] = Some (File [97])"
    and b: "F' [''data'', ''01_raw'', ''sub'', ''b.txt''] = Some (File [98, 98])"
    by (simp_all add: arcname_a_txt arcname_sub_b_txt node_at_def)
  from dirs [rule_format, of 2] have d: "F' [''data'', ''01_raw''] = Some Dir"
    by (simp add: parts_of_raw_dir node_at_def)
  from run a b d show ?thesis by simp
qed



end
